theory Spec2Isabelle
  imports
    Main
    "HOL-Library.Product_Lexorder"
    "HOL-Library.List_Lexorder"
    "HOL-Library.Char_ord"
begin

section \<open>Monthly reentry totals (csv_mulch.py)\<close>

text \<open>
  The script reads launch records, parses three date columns, sorts the records by
  reentry date and counts the reentries of each calendar month. The embedding follows
  the source function by function. Exceptions are values of \<open>pyerror\<close>; a function
  that can raise returns \<open>pyerror + 'a\<close> with \<open>Inl\<close> for the exception.
\<close>

subsection \<open>Python values\<close>

datatype pyerror = ValueError | TypeError | IndexError

definition AL_CONST :: int where
  "AL_CONST = 143"

text \<open>
  A naive \<open>datetime.datetime\<close>: the seven integer attributes. Two of them compare as
  the tuples of their attributes do, lexicographically.
\<close>

record datetime =
  year :: int
  month :: int
  day :: int
  hour :: int
  minute :: int
  second :: int
  microsecond :: int

type_synonym dtkey = "int \<times> int \<times> int \<times> int \<times> int \<times> int \<times> int"

definition dt_key :: "datetime \<Rightarrow> dtkey" where
  "dt_key d = (year d, month d, day d, hour d, minute d, second d, microsecond d)"

definition MINYEAR :: int where
  "MINYEAR = 1"

definition MAXYEAR :: int where
  "MAXYEAR = 9999"

definition is_leap :: "int \<Rightarrow> bool" where
  "is_leap y = (y mod 4 = 0 \<and> (y mod 100 \<noteq> 0 \<or> y mod 400 = 0))"

definition days_in_month :: "int \<Rightarrow> int \<Rightarrow> int" where
  "days_in_month y m =
     (if m = 2 then (if is_leap y then 29 else 28)
      else if m = 4 \<or> m = 6 \<or> m = 9 \<or> m = 11 then 30
      else 31)"

text \<open>The range checks of the \<open>datetime\<close> constructor.\<close>

definition check_fields :: "datetime \<Rightarrow> bool" where
  "check_fields d =
     (MINYEAR \<le> year d \<and> year d \<le> MAXYEAR \<and>
      1 \<le> month d \<and> month d \<le> 12 \<and>
      1 \<le> day d \<and> day d \<le> days_in_month (year d) (month d) \<and>
      0 \<le> hour d \<and> hour d \<le> 23 \<and>
      0 \<le> minute d \<and> minute d \<le> 59 \<and>
      0 \<le> second d \<and> second d \<le> 59 \<and>
      0 \<le> microsecond d \<and> microsecond d \<le> 999999)"

text \<open>
  \<open>datetime(...)\<close> and \<open>d.replace(...)\<close> both run the constructor on the full set
  of attributes and raise \<open>ValueError\<close> when one is out of range.
\<close>

definition new_datetime :: "datetime \<Rightarrow> pyerror + datetime" where
  "new_datetime d = (if check_fields d then Inr d else Inl ValueError)"

definition replace_day :: "datetime \<Rightarrow> int \<Rightarrow> pyerror + datetime" where
  "replace_day d v = new_datetime (d\<lparr>day := v\<rparr>)"

definition replace_year_month :: "datetime \<Rightarrow> int \<Rightarrow> int \<Rightarrow> pyerror + datetime" where
  "replace_year_month d y m = new_datetime (d\<lparr>year := y, month := m\<rparr>)"

text \<open>
  The value of a date cell after \<open>read_date\<close>: a \<open>datetime\<close>, or one of the strings
  \<open>-\<close> and \<open>*\<close> handed back unchanged.
\<close>

datatype pyval = DT datetime | Str string

subsection \<open>increment_month\<close>

definition increment_month :: "datetime \<Rightarrow> pyerror + datetime" where
  "increment_month cur_date =
     (let month' = month cur_date in
      if month cur_date = 12 then replace_year_month cur_date (year cur_date + 1) 1
      else replace_year_month cur_date (year cur_date) (month' + 1))"

subsection \<open>datetime.strptime for the two formats of read_date\<close>

text \<open>
  \<open>strptime\<close> turns a format into a regular expression, matches it at the start of
  the string ignoring case, raises \<open>ValueError\<close> when it does not match or when text
  remains after the match, and builds the \<open>datetime\<close> from the groups. The
  directives of the two formats used here are \<open>%Y\<close> (four digits), \<open>%b\<close> (one of
  the twelve English abbreviations), \<open>%d\<close> (the alternatives
  \<open>3[0-1]|[1-2]\d|0[1-9]|[1-9]| [1-9]\<close>, the first that matches), and a blank, which
  stands for one or more whitespace characters, as many as possible first. Strings are
  lists of characters with codes below 256; the whitespace characters among them are
  the blank, the codes 0x09 to 0x0D and 0x1C to 0x1F, 0x85 and 0xA0, and the digits
  are \<open>0\<close> to \<open>9\<close>.
\<close>

definition isspace :: "char \<Rightarrow> bool" where
  "isspace c = (c \<in> set [CHR '' '', CHR 0x09, CHR 0x0A, CHR 0x0B, CHR 0x0C, CHR 0x0D,
                          CHR 0x1C, CHR 0x1D, CHR 0x1E, CHR 0x1F, CHR 0x85, CHR 0xA0])"

definition isdigit :: "char \<Rightarrow> bool" where
  "isdigit c = (48 \<le> (of_char c :: int) \<and> (of_char c :: int) \<le> 57)"

definition digit_val :: "char \<Rightarrow> int" where
  "digit_val c = of_char c - 48"

definition lower :: "char \<Rightarrow> char" where
  "lower c = (if 65 \<le> (of_char c :: nat) \<and> (of_char c :: nat) \<le> 90
              then char_of ((of_char c :: nat) + 32) else c)"

definition a_month :: "string list" where
  "a_month = [''jan'', ''feb'', ''mar'', ''apr'', ''may'', ''jun'',
              ''jul'', ''aug'', ''sep'', ''oct'', ''nov'', ''dec'']"

fun index_of :: "'a \<Rightarrow> 'a list \<Rightarrow> nat option" where
  "index_of x [] = None"
| "index_of x (y # ys) =
     (if x = y then Some 0 else map_option Suc (index_of x ys))"

text \<open>Each directive returns its value and the text left after it.\<close>

fun directive_Y :: "string \<Rightarrow> (int \<times> string) option" where
  "directive_Y (a # b # c # d # rest) =
     (if isdigit a \<and> isdigit b \<and> isdigit c \<and> isdigit d
      then Some (1000 * digit_val a + 100 * digit_val b + 10 * digit_val c + digit_val d, rest)
      else None)"
| "directive_Y _ = None"

fun directive_b :: "string \<Rightarrow> (int \<times> string) option" where
  "directive_b (a # b # c # rest) =
     (case index_of (map lower [a, b, c]) a_month of
        Some i \<Rightarrow> Some (int i + 1, rest)
      | None \<Rightarrow> None)"
| "directive_b _ = None"

definition nonzero_digit :: "char \<Rightarrow> bool" where
  "nonzero_digit c = (isdigit c \<and> c \<noteq> CHR ''0'')"

fun directive_d :: "string \<Rightarrow> (int \<times> string) option" where
  "directive_d [] = None"
| "directive_d [a] = (if nonzero_digit a then Some (digit_val a, []) else None)"
| "directive_d (a # b # rest) =
     (if a = CHR ''3'' \<and> (b = CHR ''0'' \<or> b = CHR ''1'') then Some (30 + digit_val b, rest)
      else if (a = CHR ''1'' \<or> a = CHR ''2'') \<and> isdigit b
        then Some (10 * digit_val a + digit_val b, rest)
      else if a = CHR ''0'' \<and> nonzero_digit b then Some (digit_val b, rest)
      else if nonzero_digit a then Some (digit_val a, b # rest)
      else if a = CHR '' '' \<and> nonzero_digit b then Some (digit_val b, rest)
      else None)"

text \<open>
  The ways \<open>\s+\<close> can match at the start of a string, in the order the matcher tries
  them: all the leading whitespace first, then one character less, down to one.
\<close>

definition ws_plus :: "string \<Rightarrow> string list" where
  "ws_plus s = map (\<lambda>k. drop k s) (rev [1..<Suc (length (takeWhile isspace s))])"

fun first_match :: "('a \<Rightarrow> 'b option) \<Rightarrow> 'a list \<Rightarrow> 'b option" where
  "first_match f [] = None"
| "first_match f (x # xs) = (case f x of Some y \<Rightarrow> Some y | None \<Rightarrow> first_match f xs)"

definition match_Yb :: "string \<Rightarrow> (int \<times> int \<times> string) option" where
  "match_Yb s =
     (case directive_Y s of
        None \<Rightarrow> None
      | Some (y, r1) \<Rightarrow>
          first_match (\<lambda>r2. case directive_b r2 of
                                 None \<Rightarrow> None
                               | Some (m, r3) \<Rightarrow> Some (y, m, r3))
            (ws_plus r1))"

definition match_Ybd :: "string \<Rightarrow> (int \<times> int \<times> int \<times> string) option" where
  "match_Ybd s =
     (case directive_Y s of
        None \<Rightarrow> None
      | Some (y, r1) \<Rightarrow>
          first_match (\<lambda>r2. case directive_b r2 of
                                 None \<Rightarrow> None
                               | Some (m, r3) \<Rightarrow>
                                   first_match (\<lambda>r4. case directive_d r4 of
                                                          None \<Rightarrow> None
                                                        | Some (d, r5) \<Rightarrow> Some (y, m, d, r5))
                                     (ws_plus r3))
            (ws_plus r1))"

definition midnight :: "int \<Rightarrow> int \<Rightarrow> int \<Rightarrow> datetime" where
  "midnight y m d =
     \<lparr>year = y, month = m, day = d, hour = 0, minute = 0, second = 0, microsecond = 0\<rparr>"

text \<open>\<open>datetime.strptime(s, "%Y %b %d")\<close>\<close>

definition strptime_Ybd :: "string \<Rightarrow> pyerror + datetime" where
  "strptime_Ybd s =
     (case match_Ybd s of
        None \<Rightarrow> Inl ValueError
      | Some (y, m, d, rest) \<Rightarrow>
          if rest \<noteq> [] then Inl ValueError else new_datetime (midnight y m d))"

text \<open>\<open>datetime.strptime(s, "%Y %b")\<close>: the day defaults to 1.\<close>

definition strptime_Yb :: "string \<Rightarrow> pyerror + datetime" where
  "strptime_Yb s =
     (case match_Yb s of
        None \<Rightarrow> Inl ValueError
      | Some (y, m, rest) \<Rightarrow>
          if rest \<noteq> [] then Inl ValueError else new_datetime (midnight y m 1))"

subsection \<open>read_date\<close>

definition read_date :: "string \<Rightarrow> pyerror + pyval" where
  "read_date date_string =
     (if date_string = [] then Inr (Str ''-'')
      else if date_string \<in> {''*'', ''-''} then Inr (Str date_string)
      else
        let actual_date = (if last date_string = CHR ''?'' then butlast date_string
                           else date_string)
        in case strptime_Ybd actual_date of
             Inr dt \<Rightarrow> Inr (DT dt)
           | Inl ValueError \<Rightarrow>
               (case strptime_Yb actual_date of
                  Inr dt \<Rightarrow> Inr (DT dt)
                | Inl e \<Rightarrow> Inl e)
           | Inl e \<Rightarrow> Inl e)"

subsection \<open>read_csv\<close>

text \<open>
  A row of the input file, as \<open>DictReader\<close> yields it: the six columns the file has.
  The date columns hold text before \<open>read_csv\<close> and a \<open>pyval\<close> after it.
\<close>

record 'a launch =
  Sat_ID :: string
  SSN :: string
  Status :: string
  Launch_Date :: 'a
  Fail_Date :: 'a
  Reentry_Date :: 'a

definition read_row :: "string launch \<Rightarrow> pyerror + pyval launch" where
  "read_row row =
     (case read_date (Launch_Date row) of
        Inl e \<Rightarrow> Inl e
      | Inr l \<Rightarrow>
          (case read_date (Fail_Date row) of
             Inl e \<Rightarrow> Inl e
           | Inr f \<Rightarrow>
               (case read_date (Reentry_Date row) of
                  Inl e \<Rightarrow> Inl e
                | Inr r \<Rightarrow>
                    Inr \<lparr>Sat_ID = Sat_ID row, SSN = SSN row, Status = Status row,
                         Launch_Date = l, Fail_Date = f, Reentry_Date = r\<rparr>)))"

fun read_csv :: "string launch list \<Rightarrow> pyerror + pyval launch list" where
  "read_csv [] = Inr []"
| "read_csv (row # reader) =
     (case read_row row of
        Inl e \<Rightarrow> Inl e
      | Inr launch \<Rightarrow>
          (case read_csv reader of
             Inl e \<Rightarrow> Inl e
           | Inr launches \<Rightarrow> Inr (launch # launches)))"

subsection \<open>reentry_date and the sort\<close>

text \<open>
  \<open>datetime.now()\<close> reads the system clock. The clock is a parameter: \<open>clock n\<close> is
  what the call number \<open>n\<close> of \<open>datetime.now()\<close> returns, and every function that may
  read the clock takes the number of calls made so far and returns the new number.
\<close>

type_synonym clock = "nat \<Rightarrow> datetime"

definition reentry_date :: "clock \<Rightarrow> pyval launch \<Rightarrow> nat \<Rightarrow> pyval \<times> nat" where
  "reentry_date clock launch n =
     (if Reentry_Date launch = Str ''-'' then (DT (clock n), Suc n)
      else (Reentry_Date launch, n))"

text \<open>
  \<open>sorted(xs, key=f)\<close> computes the key of every element first, in list order, then
  sorts stably on the keys. Keys that are all \<open>datetime\<close> compare as dates, keys that
  are all \<open>str\<close> compare as strings; a \<open>datetime\<close> and a \<open>str\<close> do not compare, and
  a sort that holds both raises \<open>TypeError\<close>, since any comparison sort has to compare
  some key of one kind with some key of the other.
\<close>

fun key_list :: "clock \<Rightarrow> pyval launch list \<Rightarrow> nat \<Rightarrow> (pyval \<times> pyval launch) list \<times> nat" where
  "key_list clock [] n = ([], n)"
| "key_list clock (l # ls) n =
     (let kn = reentry_date clock l n;
          rest = key_list clock ls (snd kn)
      in ((fst kn, l) # fst rest, snd rest))"

fun dt_item :: "pyval \<times> 'a \<Rightarrow> (dtkey \<times> 'a) option" where
  "dt_item (DT d, x) = Some (dt_key d, x)"
| "dt_item (Str s, x) = None"

fun str_item :: "pyval \<times> 'a \<Rightarrow> (string \<times> 'a) option" where
  "str_item (Str s, x) = Some (s, x)"
| "str_item (DT d, x) = None"

definition sort_decorated :: "(pyval \<times> 'a) list \<Rightarrow> pyerror + 'a list" where
  "sort_decorated kls =
     (case those (map dt_item kls) of
        Some ds \<Rightarrow> Inr (map snd (sort_key fst ds))
      | None \<Rightarrow>
          (case those (map str_item kls) of
             Some ss \<Rightarrow> Inr (map snd (sort_key fst ss))
           | None \<Rightarrow> Inl TypeError))"

text \<open>\<open>sorted(launches, key=reentry_date)\<close>\<close>

definition sorted_launches ::
    "clock \<Rightarrow> pyval launch list \<Rightarrow> nat \<Rightarrow> pyerror + (pyval launch list \<times> nat)" where
  "sorted_launches clock launches n =
     (let kls = key_list clock launches n in
      case sort_decorated (fst kls) of
        Inl e \<Rightarrow> Inl e
      | Inr sorted_list \<Rightarrow> Inr (sorted_list, snd kls))"

subsection \<open>The monthly totals\<close>

record bucket =
  Month :: string
  Reentered :: int
  Al :: int

text \<open>
  \<open>d.strftime("%d/%m/%Y")\<close>: day and month on two digits, padded with a zero, and
  the year in decimal with no padding, as the C library prints \<open>%Y\<close>: year 999 is
  \<open>999\<close>, not \<open>0999\<close>. Years from 1000 on have four digits.
\<close>

definition digit_char :: "int \<Rightarrow> char" where
  "digit_char n = char_of (48 + n)"

definition pad2 :: "int \<Rightarrow> string" where
  "pad2 n = [digit_char (n div 10), digit_char (n mod 10)]"

definition pad4 :: "int \<Rightarrow> string" where
  "pad4 n = [digit_char (n div 1000), digit_char (n div 100 mod 10),
             digit_char (n div 10 mod 10), digit_char (n mod 10)]"

function strftime_Y :: "int \<Rightarrow> string" where
  "strftime_Y y =
     (if y < 10 then [digit_char y]
      else strftime_Y (y div 10) @ [digit_char (y mod 10)])"
  by pat_completeness auto
termination
  by (relation "measure nat") auto

definition strftime_dmY :: "datetime \<Rightarrow> string" where
  "strftime_dmY d = pad2 (day d) @ ''/'' @ pad2 (month d) @ ''/'' @ strftime_Y (year d)"

text \<open>The module-level variables of the script, and the number of clock reads.\<close>

record state =
  cur_date :: datetime
  monthly_totals :: "bucket list"
  cur_month_total :: int
  now_calls :: nat

text \<open>\<open>a >= b\<close> where \<open>b\<close> is a \<open>datetime\<close>: a string on the left raises.\<close>

fun py_ge :: "pyval \<Rightarrow> datetime \<Rightarrow> pyerror + bool" where
  "py_ge (DT a) b = Inr (dt_key a \<ge> dt_key b)"
| "py_ge (Str s) b = Inl TypeError"

text \<open>
  The \<open>while\<close> loop of one launch: as long as the reentry date is not before the first
  of the next month, the running month is appended and the month moves on.
\<close>

function while_flush :: "clock \<Rightarrow> pyval launch \<Rightarrow> state \<Rightarrow> pyerror + state" where
  "while_flush clock launch st =
     (let rd = reentry_date clock launch (now_calls st) in
      case increment_month (cur_date st) of
        Inl e \<Rightarrow> Inl e
      | Inr nxt \<Rightarrow>
          (case py_ge (fst rd) nxt of
             Inl e \<Rightarrow> Inl e
           | Inr False \<Rightarrow> Inr (st\<lparr>now_calls := snd rd\<rparr>)
           | Inr True \<Rightarrow>
               (case increment_month (cur_date st) of
                  Inl e \<Rightarrow> Inl e
                | Inr cur_date' \<Rightarrow>
                    while_flush clock launch
                      (st\<lparr>monthly_totals := monthly_totals st @
                            [\<lparr>Month = strftime_dmY (cur_date st),
                              Reentered = cur_month_total st,
                              Al = cur_month_total st * AL_CONST\<rparr>],
                          cur_date := cur_date',
                          cur_month_total := 0,
                          now_calls := snd rd\<rparr>))))"
  by pat_completeness auto
termination
proof (relation "measure (\<lambda>(clock, launch, st).
                   nat (120000 - (year (cur_date st) * 12 + month (cur_date st))))")
  show "wf (measure (\<lambda>(clock, launch, st).
              nat (120000 - (year (cur_date st) * 12 + month (cur_date st)))))"
    by simp
next
  fix clock :: clock and launch :: "pyval launch" and st :: state
    and x xa xb x2 x2a x2b
  assume "increment_month (cur_date st) = Inr x2b"
  then show "((clock, launch,
               st\<lparr>monthly_totals := monthly_totals st @
                     [\<lparr>Month = strftime_dmY (cur_date st),
                       Reentered = cur_month_total st,
                       Al = cur_month_total st * AL_CONST\<rparr>],
                   cur_date := x2b, cur_month_total := 0, now_calls := snd x\<rparr>),
              (clock, launch, st))
             \<in> measure (\<lambda>(clock, launch, st).
                  nat (120000 - (year (cur_date st) * 12 + month (cur_date st))))"
    by (auto simp: increment_month_def replace_year_month_def new_datetime_def
          check_fields_def MAXYEAR_def MINYEAR_def Let_def split: if_splits)
qed

text \<open>The \<open>for\<close> loop over the sorted launches, with its \<open>break\<close>.\<close>

fun for_launches :: "clock \<Rightarrow> pyval launch list \<Rightarrow> state \<Rightarrow> pyerror + state" where
  "for_launches clock [] st = Inr st"
| "for_launches clock (launch # rest) st =
     (if Reentry_Date launch = Str ''-'' then Inr st
      else
        case while_flush clock launch st of
          Inl e \<Rightarrow> Inl e
        | Inr st' \<Rightarrow>
            for_launches clock rest (st'\<lparr>cur_month_total := cur_month_total st' + 1\<rparr>))"

text \<open>\<open>launches[0]\<close>\<close>

fun first_launch :: "'a list \<Rightarrow> pyerror + 'a" where
  "first_launch [] = Inl IndexError"
| "first_launch (x # xs) = Inr x"

text \<open>\<open>v.replace(day=1)\<close>: \<open>str.replace\<close> takes no keyword argument.\<close>

fun replace_day1 :: "pyval \<Rightarrow> pyerror + datetime" where
  "replace_day1 (DT d) = replace_day d 1"
| "replace_day1 (Str s) = Inl TypeError"

text \<open>The statements of the script before the output file is opened.\<close>

definition script :: "clock \<Rightarrow> string launch list \<Rightarrow> pyerror + state" where
  "script clock csv =
     (case read_csv csv of
        Inl e \<Rightarrow> Inl e
      | Inr parsed \<Rightarrow>
          (case sorted_launches clock parsed 0 of
             Inl e \<Rightarrow> Inl e
           | Inr (launches, n) \<Rightarrow>
               (case first_launch launches of
                  Inl e \<Rightarrow> Inl e
                | Inr l0 \<Rightarrow>
                    (let rd = reentry_date clock l0 n in
                     case replace_day1 (fst rd) of
                       Inl e \<Rightarrow> Inl e
                     | Inr start \<Rightarrow>
                         for_launches clock launches
                           \<lparr>cur_date = start, monthly_totals = [],
                            cur_month_total = 0, now_calls = snd rd\<rparr>))))"

text \<open>
  The file \<open>monthly.csv\<close> as \<open>DictWriter\<close> gets it: the field names of the header and
  the rows. An exception before the file is opened leaves no file.
\<close>

record csv_file =
  fieldnames :: "string list"
  rows :: "bucket list"

definition main :: "clock \<Rightarrow> string launch list \<Rightarrow> pyerror + csv_file" where
  "main clock csv =
     (case script clock csv of
        Inl e \<Rightarrow> Inl e
      | Inr st \<Rightarrow>
          Inr \<lparr>fieldnames = [''Month'', ''Reentered'', ''Al''],
               rows = monthly_totals st\<rparr>)"

subsection \<open>The date formats of the input file\<close>

text \<open>
  The text \<open>read_date\<close> hands to \<open>strptime\<close>: the value of its local variable
  \<open>actual_date\<close> once the sentinels are past.
\<close>

definition actual_date :: "string \<Rightarrow> string" where
  "actual_date date_string =
     (if last date_string = CHR ''?'' then butlast date_string else date_string)"

text \<open>
  The renderings \<open>YYYY Mon DD\<close> and \<open>YYYY Mon\<close> of a date that the data files use:
  the year on four digits, padded with zeros, the English abbreviation of the month,
  the day on two digits. They are written out here and do not go through
  \<open>strftime\<close>, which leaves the year unpadded.
\<close>

definition month_abbr :: "int \<Rightarrow> string" where
  "month_abbr m = [''Jan'', ''Feb'', ''Mar'', ''Apr'', ''May'', ''Jun'',
                   ''Jul'', ''Aug'', ''Sep'', ''Oct'', ''Nov'', ''Dec''] ! nat (m - 1)"

definition format_Ybd :: "datetime \<Rightarrow> string" where
  "format_Ybd d = pad4 (year d) @ '' '' @ month_abbr (month d) @ '' '' @ pad2 (day d)"

definition format_Yb :: "int \<Rightarrow> int \<Rightarrow> string" where
  "format_Yb y m = pad4 y @ '' '' @ month_abbr m"

subsection \<open>Months and the records the loop consumes\<close>

text \<open>
  Months are counted from year 0: \<open>month_index\<close> numbers the month of a date, and
  \<open>shift_month d k\<close> is \<open>d\<close> moved \<open>k\<close> months on, day and time of day kept. A
  \<open>month_anchor\<close> is a date the constructor accepts, on the first of its month at
  midnight, as the running month of the loop is.
\<close>

definition month_index :: "datetime \<Rightarrow> int" where
  "month_index d = year d * 12 + (month d - 1)"

definition shift_month :: "datetime \<Rightarrow> int \<Rightarrow> datetime" where
  "shift_month d k =
     d\<lparr>year := (month_index d + k) div 12, month := (month_index d + k) mod 12 + 1\<rparr>"

definition month_anchor :: "datetime \<Rightarrow> bool" where
  "month_anchor d =
     (check_fields d \<and> day d = 1 \<and> hour d = 0 \<and> minute d = 0 \<and> second d = 0 \<and>
      microsecond d = 0)"

text \<open>
  The launches the \<open>for\<close> loop gets to: those before the first one whose reentry date
  is \<open>-\<close>, where it breaks.
\<close>

definition dated :: "pyval launch \<Rightarrow> bool" where
  "dated launch = (Reentry_Date launch \<noteq> Str ''-'')"

definition consumed :: "pyval launch list \<Rightarrow> pyval launch list" where
  "consumed launches = takeWhile dated launches"

text \<open>The row the loop appends for the month of \<open>d\<close> with \<open>c\<close> reentries.\<close>

definition month_row :: "datetime \<Rightarrow> int \<Rightarrow> bucket" where
  "month_row d c = \<lparr>Month = strftime_dmY d, Reentered = c, Al = c * AL_CONST\<rparr>"

text \<open>
  The rows the \<open>while\<close> loop appends when it moves the running month \<open>k\<close> months
  on: the running month with its count, then the months after it with count 0.
\<close>

fun flushed :: "datetime \<Rightarrow> int \<Rightarrow> nat \<Rightarrow> bucket list" where
  "flushed cur c 0 = []"
| "flushed cur c (Suc k) = month_row cur c # flushed (shift_month cur 1) 0 k"

text \<open>
  The month of a launch's reentry date, and what holds of a row appended before the
  running month reached the month numbered \<open>K\<close>: it is the row of an earlier month, its
  count is not negative and its \<open>Al\<close> is the count times \<open>AL_CONST\<close>.
\<close>

definition reentry_month :: "pyval launch \<Rightarrow> int" where
  "reentry_month launch = (case Reentry_Date launch of DT r \<Rightarrow> month_index r | Str s \<Rightarrow> 0)"

definition row_before :: "int \<Rightarrow> bucket \<Rightarrow> bool" where
  "row_before K b =
     (\<exists>d. month_anchor d \<and> month_index d < K \<and> Month b = strftime_dmY d \<and>
          0 \<le> Reentered b \<and> Al b = Reentered b * AL_CONST)"

text \<open>
  The order the sort puts its keys in, for keys of one kind: dates by their attributes,
  strings as strings. \<open>dt_of_key\<close> is the date of a tuple of attributes.
\<close>

fun py_le :: "pyval \<Rightarrow> pyval \<Rightarrow> bool" where
  "py_le (DT a) (DT b) = (dt_key a \<le> dt_key b)"
| "py_le (Str a) (Str b) = (a \<le> b)"
| "py_le (DT a) (Str b) = False"
| "py_le (Str a) (DT b) = False"

definition dt_of_key :: "dtkey \<Rightarrow> datetime" where
  "dt_of_key k =
     (case k of (y, m, d, h, mi, s, us) \<Rightarrow>
        \<lparr>year = y, month = m, day = d, hour = h, minute = mi, second = s, microsecond = us\<rparr>)"




section \<open>Properties\<close>

subsection \<open>increment_month\<close>

lemma check_fields_midnight:
  "check_fields (midnight y m d) =
     (1 \<le> y \<and> y \<le> 9999 \<and> 1 \<le> m \<and> m \<le> 12 \<and> 1 \<le> d \<and> d \<le> days_in_month y m)"
  by (auto simp: check_fields_def midnight_def MINYEAR_def MAXYEAR_def)

lemma increment_month_december:
  assumes "check_fields d" and "day d = 1" and "month d = 12"
  shows "increment_month d =
           (if year d < MAXYEAR then Inr (d\<lparr>year := year d + 1, month := 1\<rparr>)
            else Inl ValueError)"
  using assms
  by (auto simp: increment_month_def replace_year_month_def new_datetime_def
        check_fields_def days_in_month_def MINYEAR_def MAXYEAR_def)

lemma increment_month_other:
  assumes "check_fields d" and "day d = 1" and "month d < 12"
  shows "increment_month d = Inr (d\<lparr>month := month d + 1\<rparr>)"
  using assms
  by (auto simp: increment_month_def replace_year_month_def new_datetime_def
        check_fields_def days_in_month_def MINYEAR_def MAXYEAR_def Let_def)

text \<open>
  C7, as stated, asks that December 1 of every year Y goes to January 1 of year Y + 1.
  December 1 of year 9999 is a date, and \<open>increment_month\<close> raises \<open>ValueError\<close>
  on it: \<open>replace\<close> refuses the year 10000.
\<close>

theorem increment_month_maxyear_raises:
  "check_fields (midnight 9999 12 1) \<and> day (midnight 9999 12 1) = 1 \<and>
   month (midnight 9999 12 1) = 12 \<and>
   increment_month (midnight 9999 12 1) = Inl ValueError"
  by (simp add: increment_month_def replace_year_month_def new_datetime_def
        check_fields_def days_in_month_def MINYEAR_def MAXYEAR_def midnight_def)

text \<open>
  C7 (amended): for every first-of-month date, \<open>increment_month\<close> takes December 1
  of a year Y below 9999 to January 1 of year Y + 1, raises \<open>ValueError\<close> on December 1
  of year 9999, and takes the first of any month M below 12 to the first of month M + 1
  of the same year. The time of day is kept.
\<close>

theorem increment_month_first_of_month:
  assumes "check_fields d" and "day d = 1"
  shows "(month d = 12 \<and> year d < MAXYEAR \<longrightarrow>
            increment_month d = Inr (d\<lparr>year := year d + 1, month := 1\<rparr>)) \<and>
         (month d = 12 \<and> year d = MAXYEAR \<longrightarrow> increment_month d = Inl ValueError) \<and>
         (month d < 12 \<longrightarrow> increment_month d = Inr (d\<lparr>month := month d + 1\<rparr>))"
  using increment_month_december [OF assms] increment_month_other [OF assms]
  by simp

theorem increment_month_first_of_month_witness:
  "increment_month (midnight 2018 12 1) = Inr (midnight 2019 1 1) \<and>
   increment_month (midnight 9999 12 1) = Inl ValueError \<and>
   increment_month (midnight 2022 1 1) = Inr (midnight 2022 2 1)"
  using increment_month_first_of_month [of "midnight 2018 12 1"]
    increment_month_first_of_month [of "midnight 9999 12 1"]
    increment_month_first_of_month [of "midnight 2022 1 1"]
  by (simp add: check_fields_def days_in_month_def MINYEAR_def MAXYEAR_def midnight_def)

subsection \<open>Digits, months and the formats\<close>

lemma of_char_digit_char: "0 \<le> n \<Longrightarrow> n < 10 \<Longrightarrow> (of_char (digit_char n) :: int) = 48 + n"
  by (simp add: digit_char_def)

lemma isdigit_digit_char: "0 \<le> n \<Longrightarrow> n < 10 \<Longrightarrow> isdigit (digit_char n)"
  by (simp add: isdigit_def of_char_digit_char)

lemma digit_val_digit_char: "0 \<le> n \<Longrightarrow> n < 10 \<Longrightarrow> digit_val (digit_char n) = n"
  by (simp add: digit_val_def of_char_digit_char)

lemma digit_char_eq_iff: "0 \<le> n \<Longrightarrow> n < 10 \<Longrightarrow> digit_char n = c \<longleftrightarrow> (of_char c :: int) = 48 + n"
  using of_char_digit_char[of n] by (metis of_char_eq_iff)

lemma pad4_value:
  "1000 * ((y::int) div 1000) + 100 * (y div 100 mod 10) + 10 * (y div 10 mod 10) + y mod 10 = y"
proof -
  have a: "y div 100 = y div 10 div 10"
    by (simp add: zdiv_zmult2_eq)
  have b: "y div 1000 = y div 100 div 10"
    by (simp add: zdiv_zmult2_eq)
  have c: "10 * (y div 10) + y mod 10 = y"
    by (rule mult_div_mod_eq)
  have d: "10 * (y div 10 div 10) + y div 10 mod 10 = y div 10"
    by (rule mult_div_mod_eq)
  have e: "10 * (y div 100 div 10) + y div 100 mod 10 = y div 100"
    by (rule mult_div_mod_eq)
  show ?thesis using a b c d e by linarith
qed

lemma pad4_digits:
  assumes "0 \<le> (y::int)" "y \<le> 9999"
  shows "0 \<le> y div 1000" "y div 1000 < 10"
proof -
  show "0 \<le> y div 1000" using assms(1) by (simp add: pos_imp_zdiv_nonneg_iff)
  have "y div 1000 \<le> 9999 div 1000" using assms(2) by (intro zdiv_mono1) simp_all
  then show "y div 1000 < 10" by simp
qed

lemma directive_Y_digits:
  assumes "0 \<le> a" "a < 10" "0 \<le> b" "b < 10" "0 \<le> c" "c < 10" "0 \<le> d" "d < 10"
  shows "directive_Y (digit_char a # digit_char b # digit_char c # digit_char d # rest) =
           Some (1000 * a + 100 * b + 10 * c + d, rest)"
  using assms by (simp add: isdigit_digit_char digit_val_digit_char)

lemma directive_Y_pad4:
  assumes "0 \<le> y" "y \<le> 9999"
  shows "directive_Y (pad4 y @ rest) = Some (y, rest)"
proof -
  have "directive_Y (pad4 y @ rest) =
          Some (1000 * (y div 1000) + 100 * (y div 100 mod 10) + 10 * (y div 10 mod 10) + y mod 10, rest)"
    unfolding pad4_def append_Cons append_Nil
    by (rule directive_Y_digits) (use pad4_digits [OF assms] in simp_all)
  then show ?thesis by (simp only: pad4_value)
qed

lemma digit_char_eq_CHR:
  assumes "0 \<le> n" "n < 10"
  shows "digit_char n = CHR ''0'' \<longleftrightarrow> n = 0"
    "digit_char n = CHR ''1'' \<longleftrightarrow> n = 1"
    "digit_char n = CHR ''2'' \<longleftrightarrow> n = 2"
    "digit_char n = CHR ''3'' \<longleftrightarrow> n = 3"
    "digit_char n \<noteq> CHR ''?''"
    "digit_char n \<noteq> CHR '' ''"
    "\<not> isspace (digit_char n)"
  using assms by (auto simp: digit_char_eq_iff isspace_def)

lemma directive_d_digits:
  assumes "0 \<le> q" "q \<le> 3" "0 \<le> r" "r < 10" "1 \<le> 10 * q + r" "10 * q + r \<le> 31"
  shows "directive_d [digit_char q, digit_char r] = Some (10 * q + r, [])"
proof -
  have q: "q = 0 \<or> q = 1 \<or> q = 2 \<or> q = 3" using assms by arith
  have qq: "q < 10" using assms by simp
  show ?thesis
    using q assms
    by (auto simp: digit_char_eq_CHR [OF assms(1) qq] digit_char_eq_CHR [OF assms(3,4)]
        nonzero_digit_def isdigit_digit_char digit_val_digit_char)
qed

lemma ws_plus_Nil: "ws_plus [] = []"
  by (simp add: ws_plus_def)

lemma ws_plus_single: "\<not> isspace c \<Longrightarrow> ws_plus (CHR '' '' # c # rest) = [c # rest]"
  by (simp add: ws_plus_def isspace_def)

lemma month_abbr_parse:
  assumes "1 \<le> m" "m \<le> 12"
  shows "\<exists>a b c. month_abbr m = [a, b, c] \<and> \<not> isspace a \<and> c \<noteq> CHR ''?'' \<and>
           (\<forall>rest. directive_b (a # b # c # rest) = Some (m, rest))"
proof -
  have "m = 1 \<or> m = 2 \<or> m = 3 \<or> m = 4 \<or> m = 5 \<or> m = 6 \<or> m = 7 \<or> m = 8 \<or> m = 9 \<or>
        m = 10 \<or> m = 11 \<or> m = 12"
    using assms by arith
  then show ?thesis
    by (elim disjE) (simp_all add: month_abbr_def a_month_def lower_def isspace_def char_of_eq_iff)
qed

lemma pad2_digits:
  assumes "1 \<le> (d::int)" "d \<le> 31"
  shows "0 \<le> d div 10" "d div 10 \<le> 3" "0 \<le> d mod 10" "d mod 10 < 10"
    "10 * (d div 10) + d mod 10 = d"
proof -
  show "0 \<le> d div 10" using assms(1) by (simp add: pos_imp_zdiv_nonneg_iff)
  have "d div 10 \<le> 31 div 10" using assms(2) by (intro zdiv_mono1) simp_all
  then show "d div 10 \<le> 3" by simp
qed simp_all

lemma directive_d_pad2:
  assumes "1 \<le> d" "d \<le> 31"
  shows "directive_d (pad2 d) = Some (d, [])"
proof -
  note p = pad2_digits [OF assms]
  have "directive_d [digit_char (d div 10), digit_char (d mod 10)] =
          Some (10 * (d div 10) + d mod 10, [])"
    by (rule directive_d_digits) (use p assms in simp_all)
  then show ?thesis by (simp only: pad2_def p(5))
qed

lemma pad2_first_not_space:
  assumes "1 \<le> d" "d \<le> 31"
  shows "\<exists>c cs. pad2 d = c # cs \<and> \<not> isspace c"
  using pad2_digits(1,2) [OF assms] by (simp add: pad2_def digit_char_eq_CHR)

lemma match_Ybd_format:
  assumes "0 \<le> y" "y \<le> 9999" "1 \<le> m" "m \<le> 12" "1 \<le> d" "d \<le> 31"
  shows "match_Ybd (pad4 y @ '' '' @ month_abbr m @ '' '' @ pad2 d) = Some (y, m, d, [])"
proof -
  obtain a b c where abc: "month_abbr m = [a, b, c]" "\<not> isspace a" "c \<noteq> CHR ''?''"
      "\<And>rest. directive_b (a # b # c # rest) = Some (m, rest)"
    using month_abbr_parse [OF assms(3,4)] by blast
  obtain e es where e: "pad2 d = e # es" "\<not> isspace e"
    using pad2_first_not_space [OF assms(5,6)] by blast
  have dd: "directive_d (e # es) = Some (d, [])"
    using directive_d_pad2 [OF assms(5,6)] e(1) by simp
  show ?thesis
    by (simp add: match_Ybd_def directive_Y_pad4 [OF assms(1,2)] abc e ws_plus_single dd
          del: directive_b.simps directive_d.simps)
qed

lemma match_Yb_format:
  assumes "0 \<le> y" "y \<le> 9999" "1 \<le> m" "m \<le> 12"
  shows "match_Yb (pad4 y @ '' '' @ month_abbr m) = Some (y, m, [])"
    and "match_Ybd (pad4 y @ '' '' @ month_abbr m) = None"
proof -
  obtain a b c where abc: "month_abbr m = [a, b, c]" "\<not> isspace a" "c \<noteq> CHR ''?''"
      "\<And>rest. directive_b (a # b # c # rest) = Some (m, rest)"
    using month_abbr_parse [OF assms(3,4)] by blast
  show "match_Yb (pad4 y @ '' '' @ month_abbr m) = Some (y, m, [])"
    by (simp add: match_Yb_def directive_Y_pad4 [OF assms(1,2)] abc ws_plus_single
          del: directive_b.simps)
  show "match_Ybd (pad4 y @ '' '' @ month_abbr m) = None"
    by (simp add: match_Ybd_def directive_Y_pad4 [OF assms(1,2)] abc ws_plus_single ws_plus_Nil
          del: directive_b.simps)
qed

lemma strptime_errors:
  "strptime_Ybd s = Inl e \<Longrightarrow> e = ValueError"
  "strptime_Yb s = Inl e \<Longrightarrow> e = ValueError"
  by (auto simp: strptime_Ybd_def strptime_Yb_def new_datetime_def
        split: option.splits if_splits)

lemma read_date_parse:
  assumes "s \<noteq> []" "s \<noteq> ''*''" "s \<noteq> ''-''"
  shows "read_date s =
           (case strptime_Ybd (actual_date s) of
              Inr dt \<Rightarrow> Inr (DT dt)
            | Inl e \<Rightarrow> (case strptime_Yb (actual_date s) of
                          Inr dt \<Rightarrow> Inr (DT dt)
                        | Inl e' \<Rightarrow> Inl e'))"
proof -
  have r: "read_date s =
             (case strptime_Ybd (actual_date s) of
                Inr dt \<Rightarrow> Inr (DT dt)
              | Inl ValueError \<Rightarrow>
                  (case strptime_Yb (actual_date s) of
                     Inr dt \<Rightarrow> Inr (DT dt)
                   | Inl e \<Rightarrow> Inl e)
              | Inl e \<Rightarrow> Inl e)"
    unfolding read_date_def actual_date_def Let_def using assms by simp
  show ?thesis
  proof (cases "strptime_Ybd (actual_date s)")
    case (Inl e)
    then have "e = ValueError" by (rule strptime_errors)
    with Inl r show ?thesis by simp
  next
    case (Inr dt)
    with r show ?thesis by simp
  qed
qed

lemma read_date_error:
  assumes "read_date s = Inl e"
  shows "e = ValueError"
proof (cases "s = [] \<or> s = ''*'' \<or> s = ''-''")
  case True
  then show ?thesis using assms by (auto simp: read_date_def)
next
  case False
  then show ?thesis
    using assms read_date_parse [of s]
    by (auto dest: strptime_errors split: sum.splits)
qed

lemma actual_date_plain: "s \<noteq> [] \<Longrightarrow> last s \<noteq> CHR ''?'' \<Longrightarrow> actual_date s = s"
  and actual_date_question: "actual_date (s @ ''?'') = s"
  by (simp_all add: actual_date_def)

lemma days_in_month_le: "days_in_month y m \<le> 31"
  by (simp add: days_in_month_def)

lemma format_Ybd_shape:
  assumes "0 \<le> y" "y \<le> 9999" "1 \<le> m" "m \<le> 12" "1 \<le> d" "d \<le> 31"
  shows "format_Ybd (midnight y m d) \<noteq> []"
    "format_Ybd (midnight y m d) \<noteq> ''*''" "format_Ybd (midnight y m d) \<noteq> ''-''"
    "last (format_Ybd (midnight y m d)) \<noteq> CHR ''?''"
  using pad2_digits(3,4) [OF assms(5,6)]
  by (simp_all add: format_Ybd_def midnight_def pad4_def pad2_def digit_char_eq_CHR)

subsection \<open>read_date\<close>

lemma strptime_Ybd_format:
  assumes "check_fields (midnight y m d)"
  shows "strptime_Ybd (format_Ybd (midnight y m d)) = Inr (midnight y m d)"
proof -
  have c: "1 \<le> y" "y \<le> 9999" "1 \<le> m" "m \<le> 12" "1 \<le> d" "d \<le> days_in_month y m"
    using assms by (simp_all add: check_fields_midnight)
  have d: "d \<le> 31" using c(6) days_in_month_le [of y m] by linarith
  have y: "0 \<le> y" using c(1) by simp
  have "match_Ybd (format_Ybd (midnight y m d)) = Some (y, m, d, [])"
    using match_Ybd_format [OF y c(2) c(3) c(4) c(5) d]
    by (simp add: format_Ybd_def midnight_def)
  then show ?thesis
    using assms by (simp add: strptime_Ybd_def new_datetime_def)
qed

text \<open>
  C4: \<open>read_date\<close> round-trips day-precision dates. For every date D (a year from 1 to
  9999, a month, a day of that month), \<open>read_date\<close> of the rendering \<open>YYYY Mon DD\<close>
  of D returns D, and so does \<open>read_date\<close> of that rendering followed by one \<open>?\<close>.
\<close>

theorem read_date_roundtrip_day_precision:
  assumes "check_fields (midnight y m d)"
  shows "read_date (format_Ybd (midnight y m d)) = Inr (DT (midnight y m d)) \<and>
         read_date (format_Ybd (midnight y m d) @ ''?'') = Inr (DT (midnight y m d))"
proof -
  let ?s = "format_Ybd (midnight y m d)"
  have c: "1 \<le> y" "y \<le> 9999" "1 \<le> m" "m \<le> 12" "1 \<le> d" "d \<le> days_in_month y m"
    using assms by (simp_all add: check_fields_midnight)
  have d: "d \<le> 31" using c(6) days_in_month_le [of y m] by linarith
  have y: "0 \<le> y" using c(1) by simp
  note sh = format_Ybd_shape [OF y c(2) c(3) c(4) c(5) d]
  have p: "strptime_Ybd ?s = Inr (midnight y m d)"
    using assms by (rule strptime_Ybd_format)
  have a: "read_date ?s = Inr (DT (midnight y m d))"
    using read_date_parse [OF sh(1,2,3)] p by (simp add: actual_date_plain [OF sh(1,4)])
  have q: "?s @ ''?'' \<noteq> []" "?s @ ''?'' \<noteq> ''*''" "?s @ ''?'' \<noteq> ''-''"
    using sh(1) by (simp_all add: append_eq_Cons_conv)
  have b: "read_date (?s @ ''?'') = Inr (DT (midnight y m d))"
    using read_date_parse [OF q] p by (simp add: actual_date_question)
  show ?thesis using a b by simp
qed

theorem read_date_roundtrip_day_precision_witness:
  "format_Ybd (midnight 2020 1 5) = ''2020 Jan 05'' \<and>
   read_date ''2020 Jan 05'' = Inr (DT (midnight 2020 1 5)) \<and>
   read_date ''2020 Jan 05?'' = Inr (DT (midnight 2020 1 5))"
proof -
  have f: "format_Ybd (midnight 2020 1 5) = ''2020 Jan 05''"
    by (simp add: format_Ybd_def midnight_def pad4_def pad2_def digit_char_def month_abbr_def
          char_of_eq_iff)
  have c: "check_fields (midnight 2020 1 5)"
    by (simp add: check_fields_midnight days_in_month_def)
  show ?thesis
    using read_date_roundtrip_day_precision [OF c] f by simp
qed

lemma format_Yb_shape:
  assumes "1 \<le> m" "m \<le> 12"
  shows "format_Yb y m \<noteq> []" "format_Yb y m \<noteq> ''*''" "format_Yb y m \<noteq> ''-''"
    "last (format_Yb y m) \<noteq> CHR ''?''"
proof -
  obtain a b c where abc: "month_abbr m = [a, b, c]" "c \<noteq> CHR ''?''"
    using month_abbr_parse [OF assms] by blast
  show "format_Yb y m \<noteq> []" "format_Yb y m \<noteq> ''*''" "format_Yb y m \<noteq> ''-''"
    "last (format_Yb y m) \<noteq> CHR ''?''"
    using abc by (simp_all add: format_Yb_def pad4_def)
qed

lemma strptime_format_Yb:
  assumes "1 \<le> y" "y \<le> 9999" "1 \<le> m" "m \<le> 12"
  shows "strptime_Ybd (format_Yb y m) = Inl ValueError"
    and "strptime_Yb (format_Yb y m) = Inr (midnight y m 1)"
proof -
  have y: "0 \<le> y" using assms(1) by simp
  have c: "check_fields (midnight y m 1)"
    using assms by (simp add: check_fields_midnight days_in_month_def)
  show "strptime_Ybd (format_Yb y m) = Inl ValueError"
    using match_Yb_format(2) [OF y assms(2,3,4)]
    by (simp add: strptime_Ybd_def format_Yb_def)
  show "strptime_Yb (format_Yb y m) = Inr (midnight y m 1)"
    using match_Yb_format(1) [OF y assms(2,3,4)] c
    by (simp add: strptime_Yb_def format_Yb_def new_datetime_def)
qed

lemma read_date_format_Yb:
  assumes "1 \<le> y" "y \<le> 9999" "1 \<le> m" "m \<le> 12"
  shows "read_date (format_Yb y m) = Inr (DT (midnight y m 1))"
    and "read_date (format_Yb y m @ ''?'') = Inr (DT (midnight y m 1))"
proof -
  let ?s = "format_Yb y m"
  note sh = format_Yb_shape [OF assms(3,4), of y]
  note p = strptime_format_Yb [OF assms]
  show "read_date ?s = Inr (DT (midnight y m 1))"
    using read_date_parse [OF sh(1,2,3)] p by (simp add: actual_date_plain [OF sh(1,4)])
  have q: "?s @ ''?'' \<noteq> []" "?s @ ''?'' \<noteq> ''*''" "?s @ ''?'' \<noteq> ''-''"
    using sh(1) by (simp_all add: append_eq_Cons_conv)
  show "read_date (?s @ ''?'') = Inr (DT (midnight y m 1))"
    using read_date_parse [OF q] p by (simp add: actual_date_question)
qed

text \<open>
  C6: for every year from 1 to 9999 and every month, \<open>read_date\<close> of the rendering
  \<open>YYYY Mon\<close>, with or without a trailing \<open>?\<close>, returns day 1 of that month and year.
  On every string that is not a sentinel the day-precision format is tried first and its
  result is returned when it parses; the month-precision format is tried only after the
  day-precision parse has raised, and then decides the result.
\<close>

theorem read_date_month_precision:
  "(1 \<le> y \<and> y \<le> 9999 \<and> 1 \<le> m \<and> m \<le> 12 \<longrightarrow>
      read_date (format_Yb y m) = Inr (DT (midnight y m 1)) \<and>
      read_date (format_Yb y m @ ''?'') = Inr (DT (midnight y m 1))) \<and>
   (s \<noteq> [] \<and> s \<noteq> ''*'' \<and> s \<noteq> ''-'' \<longrightarrow>
      (\<forall>dt. strptime_Ybd (actual_date s) = Inr dt \<longrightarrow> read_date s = Inr (DT dt)) \<and>
      (\<forall>e. strptime_Ybd (actual_date s) = Inl e \<longrightarrow>
         read_date s = (case strptime_Yb (actual_date s) of
                          Inr dt \<Rightarrow> Inr (DT dt)
                        | Inl e' \<Rightarrow> Inl e')))"
  using read_date_format_Yb [of y m] read_date_parse [of s]
  by simp

theorem read_date_month_precision_witness:
  "format_Yb 2020 3 = ''2020 Mar'' \<and>
   read_date ''2020 Mar'' = Inr (DT (midnight 2020 3 1)) \<and>
   read_date ''2020 Mar?'' = Inr (DT (midnight 2020 3 1)) \<and>
   strptime_Ybd (actual_date ''2020 Mar 02?'') = Inr (midnight 2020 3 2) \<and>
   read_date ''2020 Mar 02?'' = Inr (DT (midnight 2020 3 2)) \<and>
   strptime_Ybd (actual_date ''2020 Mar'') = Inl ValueError \<and>
   strptime_Yb (actual_date ''2020 Mar'') = Inr (midnight 2020 3 1)"
proof -
  have f: "format_Yb 2020 3 = ''2020 Mar''"
    by (simp add: format_Yb_def pad4_def digit_char_def month_abbr_def char_of_eq_iff)
  have g: "format_Ybd (midnight 2020 3 2) = ''2020 Mar 02''"
    by (simp add: format_Ybd_def midnight_def pad4_def pad2_def digit_char_def month_abbr_def
          char_of_eq_iff)
  have a: "actual_date ''2020 Mar 02?'' = ''2020 Mar 02''" "actual_date ''2020 Mar'' = ''2020 Mar''"
    by (simp_all add: actual_date_def)
  have c: "check_fields (midnight 2020 3 2)"
    by (simp add: check_fields_midnight days_in_month_def)
  have p: "strptime_Ybd ''2020 Mar 02'' = Inr (midnight 2020 3 2)"
    using strptime_Ybd_format [OF c] g by simp
  have q: "strptime_Ybd ''2020 Mar'' = Inl ValueError"
    "strptime_Yb ''2020 Mar'' = Inr (midnight 2020 3 1)"
    using strptime_format_Yb [of 2020 3] f by simp_all
  show ?thesis
    using read_date_month_precision [of 2020 3 "''2020 Mar 02?''"]
      read_date_month_precision [of 2020 3 "''2020 Mar''"] f a p q
    by simp
qed

lemma read_date_raises_iff:
  "(\<exists>e. read_date s = Inl e) \<longleftrightarrow>
     s \<noteq> [] \<and> s \<noteq> ''*'' \<and> s \<noteq> ''-'' \<and>
     (\<exists>e. strptime_Ybd (actual_date s) = Inl e) \<and> (\<exists>e. strptime_Yb (actual_date s) = Inl e)"
proof (cases "s = [] \<or> s = ''*'' \<or> s = ''-''")
  case True
  then show ?thesis by (auto simp: read_date_def)
next
  case False
  then show ?thesis
    using read_date_parse [of s] by (auto split: sum.splits)
qed

lemma read_row_cases:
  "read_row row = Inl e \<longleftrightarrow>
     read_date (Launch_Date row) = Inl e \<or>
     (\<exists>l. read_date (Launch_Date row) = Inr l) \<and>
       (read_date (Fail_Date row) = Inl e \<or>
        (\<exists>f. read_date (Fail_Date row) = Inr f) \<and> read_date (Reentry_Date row) = Inl e)"
  unfolding read_row_def
  by (cases "read_date (Launch_Date row)"; cases "read_date (Fail_Date row)";
      cases "read_date (Reentry_Date row)"; simp)

lemma read_row_error:
  assumes "read_row row = Inl e"
  shows "e = ValueError"
  using assms read_date_error unfolding read_row_cases by blast

lemma read_row_raises:
  assumes "s = Launch_Date row \<or> s = Fail_Date row \<or> s = Reentry_Date row"
    and "read_date s = Inl e"
  shows "read_row row = Inl ValueError"
proof -
  have v: "e = ValueError" using assms(2) by (rule read_date_error)
  have t: "\<And>x. (\<exists>e. read_date x = Inl e) \<or> (\<exists>v. read_date x = Inr v)"
    by (metis sum.exhaust)
  have "\<exists>e'. read_row row = Inl e'"
    unfolding read_row_cases
    using assms t [of "Launch_Date row"] t [of "Fail_Date row"] by blast
  then show ?thesis using read_row_error by blast
qed

lemma read_csv_error:
  "read_csv csv = Inl e \<Longrightarrow> e = ValueError"
proof (induction csv arbitrary: e)
  case Nil
  then show ?case by simp
next
  case (Cons row csv)
  show ?case
  proof (cases "read_row row")
    case (Inl e')
    then show ?thesis using Cons.prems read_row_error by simp
  next
    case (Inr l)
    then show ?thesis using Cons by (cases "read_csv csv") simp_all
  qed
qed

lemma read_csv_raises:
  assumes "row \<in> set csv" and "read_row row = Inl e"
  shows "read_csv csv = Inl ValueError"
proof -
  have "\<exists>e'. read_csv csv = Inl e'"
    using assms
  proof (induction csv)
    case Nil
    then show ?case by simp
  next
    case (Cons r csv)
    show ?case
    proof (cases "read_row r")
      case (Inl e')
      then show ?thesis by simp
    next
      case (Inr l)
      then have "row \<in> set csv" using Cons.prems by auto
      then obtain e' where "read_csv csv = Inl e'" using Cons by blast
      then show ?thesis using Inr by simp
    qed
  qed
  then show ?thesis using read_csv_error by blast
qed

lemma main_read_csv_error:
  "read_csv csv = Inl e \<Longrightarrow> main clock csv = Inl e"
  by (simp add: main_def script_def)

text \<open>
  C5: \<open>read_date\<close> raises exactly on malformed input that is not a sentinel. On the
  empty string, \<open>-\<close> and \<open>*\<close> it returns a string, which no date equals (the empty
  string gives \<open>-\<close>). On any string it raises if and only if the string is none of the
  three and, with one trailing \<open>?\<close> removed, parses in neither format; what it raises
  is \<open>ValueError\<close>. Nothing catches it: a file with such a string in a date column of
  some row makes the whole run end with \<open>ValueError\<close> and no output file.
\<close>

theorem read_date_raises_exactly_on_malformed:
  "read_date [] = Inr (Str ''-'') \<and> read_date ''-'' = Inr (Str ''-'') \<and>
   read_date ''*'' = Inr (Str ''*'') \<and>
   (\<forall>dt. Str ''-'' \<noteq> DT dt \<and> Str ''*'' \<noteq> DT dt) \<and>
   ((\<exists>e. read_date s = Inl e) \<longleftrightarrow>
      s \<noteq> [] \<and> s \<noteq> ''*'' \<and> s \<noteq> ''-'' \<and>
      (\<exists>e. strptime_Ybd (actual_date s) = Inl e) \<and>
      (\<exists>e. strptime_Yb (actual_date s) = Inl e)) \<and>
   (\<forall>e. read_date s = Inl e \<longrightarrow> e = ValueError) \<and>
   (row \<in> set csv \<and>
    (s = Launch_Date row \<or> s = Fail_Date row \<or> s = Reentry_Date row) \<and>
    (\<exists>e. read_date s = Inl e) \<longrightarrow> main clock csv = Inl ValueError)"
proof -
  have a: "read_date [] = Inr (Str ''-'')" "read_date ''-'' = Inr (Str ''-'')"
    "read_date ''*'' = Inr (Str ''*'')"
    by (simp_all add: read_date_def)
  have b: "row \<in> set csv \<and>
    (s = Launch_Date row \<or> s = Fail_Date row \<or> s = Reentry_Date row) \<and>
    (\<exists>e. read_date s = Inl e) \<longrightarrow> main clock csv = Inl ValueError"
  proof (intro impI, elim conjE exE)
    fix e
    assume r: "row \<in> set csv"
      and f: "s = Launch_Date row \<or> s = Fail_Date row \<or> s = Reentry_Date row"
      and e: "read_date s = Inl e"
    have "read_row row = Inl ValueError" using f e by (rule read_row_raises)
    then have "read_csv csv = Inl ValueError" using r read_csv_raises by blast
    then show "main clock csv = Inl ValueError" by (rule main_read_csv_error)
  qed
  have c: "\<forall>e. read_date s = Inl e \<longrightarrow> e = ValueError"
    using read_date_error by blast
  have d: "\<forall>dt. Str ''-'' \<noteq> DT dt \<and> Str ''*'' \<noteq> DT dt" by simp
  show ?thesis
    using a b c d read_date_raises_iff [of s] by blast
qed

theorem read_date_raises_exactly_on_malformed_witness:
  "read_date ''20/01/2020'' = Inl ValueError \<and>
   main (\<lambda>n. midnight 2022 3 15)
     [\<lparr>Sat_ID = ''Tintin A'', SSN = ''S43216'', Status = ''R'', Launch_Date = ''2018 Feb 22'',
       Fail_Date = ''*'', Reentry_Date = ''20/01/2020''\<rparr>] = Inl ValueError"
proof -
  let ?s = "''20/01/2020''"
  let ?row = "\<lparr>Sat_ID = ''Tintin A'', SSN = ''S43216'', Status = ''R'',
       Launch_Date = ''2018 Feb 22'', Fail_Date = ''*'', Reentry_Date = ?s\<rparr>"
  have a: "actual_date ?s = ?s"
    by (simp add: actual_date_def)
  have y: "directive_Y ?s = None"
    by (simp add: isdigit_def)
  have p: "strptime_Ybd (actual_date ?s) = Inl ValueError"
    "strptime_Yb (actual_date ?s) = Inl ValueError"
    unfolding a by (simp_all add: strptime_Ybd_def strptime_Yb_def match_Ybd_def
          match_Yb_def y del: directive_Y.simps)
  note t = read_date_raises_exactly_on_malformed
      [of ?s ?row "[?row]" "\<lambda>n. midnight 2022 3 15"]
  have e: "\<exists>e. read_date ?s = Inl e"
    using t p by blast
  then have "read_date ?s = Inl ValueError"
    using t by blast
  moreover have "main (\<lambda>n. midnight 2022 3 15) [?row] = Inl ValueError"
    using t e by simp
  ultimately show ?thesis by simp
qed

subsection \<open>The run: errors and stages\<close>

lemma those_map_Some:
  "those (map f xs) = Some ys \<longleftrightarrow> (\<forall>x\<in>set xs. f x \<noteq> None) \<and> ys = map (\<lambda>x. the (f x)) xs"
  by (induction xs arbitrary: ys) (auto split: option.splits)

lemma those_map_None:
  "those (map f xs) = None \<longleftrightarrow> (\<exists>x\<in>set xs. f x = None)"
  using those_map_Some [of f xs] by (cases "those (map f xs)") auto

lemma key_list_snd: "map snd (fst (key_list clock ls n)) = ls"
  by (induction ls arbitrary: n) (simp_all add: Let_def)

lemma key_list_keys:
  "(k, l) \<in> set (fst (key_list clock ls n)) \<Longrightarrow>
     (Reentry_Date l = Str ''-'' \<and> (\<exists>j. k = DT (clock j))) \<or>
     (Reentry_Date l \<noteq> Str ''-'' \<and> k = Reentry_Date l)"
  by (induction ls arbitrary: n) (auto simp: Let_def reentry_date_def split: if_splits)

lemma read_date_values:
  "read_date s = Inr v \<Longrightarrow>
     v = Str ''-'' \<or> v = Str ''*'' \<or>
     (\<exists>y m d. v = DT (midnight y m d) \<and> check_fields (midnight y m d))"
proof (cases "s = [] \<or> s = ''*'' \<or> s = ''-''")
  case True
  assume "read_date s = Inr v"
  with True show ?thesis by (auto simp: read_date_def)
next
  case False
  assume "read_date s = Inr v"
  with False show ?thesis
    using read_date_parse [of s]
    by (auto simp: strptime_Ybd_def strptime_Yb_def new_datetime_def
          split: sum.splits option.splits if_splits)
qed

lemma read_csv_rows:
  "read_csv csv = Inr parsed \<Longrightarrow> list_all2 (\<lambda>row l. read_row row = Inr l) csv parsed"
proof (induction csv arbitrary: parsed)
  case Nil
  then show ?case by simp
next
  case (Cons row csv)
  then show ?case
    by (cases "read_row row"; cases "read_csv csv") auto
qed

lemma read_row_Reentry:
  assumes "read_row row = Inr l"
  shows "read_date (Reentry_Date row) = Inr (Reentry_Date l)"
  using assms unfolding read_row_def
  by (cases "read_date (Launch_Date row)"; cases "read_date (Fail_Date row)";
      cases "read_date (Reentry_Date row)") auto

lemma read_csv_parsed_row:
  assumes "read_csv csv = Inr parsed" and "l \<in> set parsed"
  shows "\<exists>row\<in>set csv. read_row row = Inr l"
proof -
  note a = read_csv_rows [OF assms(1)]
  obtain i where i: "i < length parsed" "parsed ! i = l"
    using assms(2) by (auto simp: in_set_conv_nth)
  have "i < length csv" using a i(1) by (simp add: list_all2_lengthD)
  moreover have "read_row (csv ! i) = Inr l"
    using list_all2_nthD2 [OF a i(1)] i(2) by simp
  ultimately show ?thesis using nth_mem by blast
qed

lemma read_csv_row_parsed:
  assumes "read_csv csv = Inr parsed" and "row \<in> set csv"
  shows "\<exists>l\<in>set parsed. read_row row = Inr l"
proof -
  note a = read_csv_rows [OF assms(1)]
  obtain i where i: "i < length csv" "csv ! i = row"
    using assms(2) by (auto simp: in_set_conv_nth)
  have "i < length parsed" using a i(1) by (simp add: list_all2_lengthD)
  moreover have "read_row row = Inr (parsed ! i)"
    using list_all2_nthD [OF a i(1)] i(2) by simp
  ultimately show ?thesis using nth_mem by blast
qed

lemma read_csv_Reentry_values:
  assumes "read_csv csv = Inr parsed" and "l \<in> set parsed"
  shows "Reentry_Date l = Str ''-'' \<or> Reentry_Date l = Str ''*'' \<or>
     (\<exists>y m d. Reentry_Date l = DT (midnight y m d) \<and> check_fields (midnight y m d))"
proof -
  obtain row where "read_row row = Inr l"
    using read_csv_parsed_row [OF assms] by blast
  then have "read_date (Reentry_Date row) = Inr (Reentry_Date l)"
    by (rule read_row_Reentry)
  then show ?thesis by (rule read_date_values)
qed

lemma read_csv_star:
  assumes "read_csv csv = Inr parsed" and "row \<in> set csv" and "Reentry_Date row = ''*''"
  shows "\<exists>l\<in>set parsed. Reentry_Date l = Str ''*''"
proof -
  obtain l where l: "l \<in> set parsed" "read_row row = Inr l"
    using read_csv_row_parsed [OF assms(1,2)] by blast
  have "read_date ''*'' = Inr (Str ''*'')" by (simp add: read_date_def)
  then have "Reentry_Date l = Str ''*''"
    using read_row_Reentry [OF l(2)] assms(3) by simp
  then show ?thesis using l(1) by blast
qed

lemma read_csv_length:
  assumes "read_csv csv = Inr parsed"
  shows "length parsed = length csv"
  using read_csv_rows [OF assms] by (simp add: list_all2_lengthD)

lemma sort_decorated_cases:
  assumes "sort_decorated kls = Inr ls"
  shows "(\<exists>ds. those (map dt_item kls) = Some ds \<and> ls = map snd (sort_key fst ds)) \<or>
         (those (map dt_item kls) = None \<and>
          (\<exists>ss. those (map str_item kls) = Some ss \<and> ls = map snd (sort_key fst ss)))"
  using assms by (auto simp: sort_decorated_def split: option.splits)

lemma sort_decorated_length:
  assumes "sort_decorated kls = Inr ls"
  shows "length ls = length kls"
  using sort_decorated_cases [OF assms] by (auto simp: those_map_Some)

lemma sorted_launches_Inr:
  assumes "sorted_launches clock parsed n = Inr (ls, n')"
  shows "sort_decorated (fst (key_list clock parsed n)) = Inr ls"
  using assms
  by (cases "sort_decorated (fst (key_list clock parsed n))")
     (simp_all add: sorted_launches_def Let_def)

lemma sorted_launches_length:
  assumes "sorted_launches clock parsed n = Inr (ls, n')"
  shows "length ls = length parsed"
proof -
  have "length (fst (key_list clock parsed n)) = length (map snd (fst (key_list clock parsed n)))"
    by simp
  also have "\<dots> = length parsed" by (simp only: key_list_snd)
  finally show ?thesis
    using sort_decorated_length [OF sorted_launches_Inr [OF assms]] by simp
qed

declare while_flush.simps [simp del]

lemma increment_month_error:
  "increment_month d = Inl e \<Longrightarrow> e = ValueError"
  by (auto simp: increment_month_def replace_year_month_def new_datetime_def Let_def
        split: if_splits)

lemma py_ge_error: "py_ge v d = Inl e \<Longrightarrow> e = TypeError"
  by (cases v) auto

lemma while_flush_step:
  "while_flush clock launch st =
     (case increment_month (cur_date st) of
        Inl e \<Rightarrow> Inl e
      | Inr nxt \<Rightarrow>
          (case py_ge (fst (reentry_date clock launch (now_calls st))) nxt of
             Inl e \<Rightarrow> Inl e
           | Inr go \<Rightarrow>
               if go then
                 while_flush clock launch
                   (st\<lparr>monthly_totals := monthly_totals st @
                         [\<lparr>Month = strftime_dmY (cur_date st),
                           Reentered = cur_month_total st,
                           Al = cur_month_total st * AL_CONST\<rparr>],
                       cur_date := nxt,
                       cur_month_total := 0,
                       now_calls := snd (reentry_date clock launch (now_calls st))\<rparr>)
               else Inr (st\<lparr>now_calls := snd (reentry_date clock launch (now_calls st))\<rparr>)))"
  by (subst while_flush.simps) (simp add: Let_def split: sum.splits bool.splits)

lemma while_flush_error:
  "while_flush clock launch st = Inl e \<Longrightarrow> e \<noteq> IndexError"
proof (induction clock launch st rule: while_flush.induct)
  case (1 clock launch st)
  show ?case
  proof (cases "increment_month (cur_date st)")
    case (Inl e')
    then show ?thesis
      using "1.prems" increment_month_error [OF Inl] by (simp add: while_flush_step)
  next
    case nxt: (Inr nxt)
    show ?thesis
    proof (cases "py_ge (fst (reentry_date clock launch (now_calls st))) nxt")
      case (Inl e')
      then show ?thesis
        using "1.prems" nxt py_ge_error [OF Inl] by (simp add: while_flush_step)
    next
      case (Inr go)
      show ?thesis
      proof (cases go)
        case True
        then have go: "go = True" by simp
        show ?thesis
          using "1.IH" [OF refl nxt Inr go nxt] "1.prems" nxt Inr True
          by (simp add: while_flush_step)
      next
        case False
        then show ?thesis
          using "1.prems" nxt Inr by (simp add: while_flush_step)
      qed
    qed
  qed
qed

lemma for_launches_error:
  "for_launches clock ls st = Inl e \<Longrightarrow> e \<noteq> IndexError"
proof (induction ls arbitrary: st)
  case Nil
  then show ?case by simp
next
  case (Cons l ls)
  show ?case
  proof (cases "Reentry_Date l = Str ''-''")
    case True
    then show ?thesis using Cons.prems by simp
  next
    case False
    show ?thesis
    proof (cases "while_flush clock l st")
      case (Inl e')
      then show ?thesis using Cons.prems False while_flush_error [OF Inl] by simp
    next
      case (Inr st')
      then show ?thesis using Cons False by simp
    qed
  qed
qed

lemma replace_day1_error: "replace_day1 v = Inl e \<Longrightarrow> e \<noteq> IndexError"
  by (cases v) (auto simp: replace_day_def new_datetime_def split: if_splits)

lemma sort_decorated_error: "sort_decorated kls = Inl e \<Longrightarrow> e = TypeError"
  by (auto simp: sort_decorated_def split: option.splits)

lemma sorted_launches_error: "sorted_launches clock parsed n = Inl e \<Longrightarrow> e = TypeError"
  by (auto simp: sorted_launches_def Let_def dest: sort_decorated_error split: sum.splits)

text \<open>The run, stage by stage.\<close>

lemma script_stages:
  assumes "read_csv csv = Inr parsed" and "sorted_launches clock parsed 0 = Inr (ls, n)"
  shows "script clock csv =
           (case first_launch ls of
              Inl e \<Rightarrow> Inl e
            | Inr l0 \<Rightarrow>
                (case replace_day1 (fst (reentry_date clock l0 n)) of
                   Inl e \<Rightarrow> Inl e
                 | Inr start \<Rightarrow>
                     for_launches clock ls
                       \<lparr>cur_date = start, monthly_totals = [], cur_month_total = 0,
                        now_calls = snd (reentry_date clock l0 n)\<rparr>))"
  unfolding script_def Let_def using assms by simp

lemma main_Inl: "main clock csv = Inl e \<longleftrightarrow> script clock csv = Inl e"
  by (cases "script clock csv") (simp_all add: main_def)

lemma script_not_IndexError:
  assumes "csv \<noteq> []"
  shows "script clock csv \<noteq> Inl IndexError"
proof (cases "read_csv csv")
  case (Inl e)
  then show ?thesis using read_csv_error [OF Inl] by (simp add: script_def)
next
  case parsed: (Inr parsed)
  show ?thesis
  proof (cases "sorted_launches clock parsed 0")
    case (Inl e)
    then show ?thesis
      using parsed sorted_launches_error [OF Inl] by (simp add: script_def)
  next
    case (Inr p)
    obtain ls n where p: "p = (ls, n)" by (cases p)
    have "length ls = length csv"
      using sorted_launches_length [of clock parsed 0 ls n] Inr p read_csv_length [OF parsed]
      by simp
    then obtain l0 rest where ls: "ls = l0 # rest"
      using assms by (cases ls) auto
    show ?thesis
    proof (cases "replace_day1 (fst (reentry_date clock l0 n))")
      case (Inl e)
      then show ?thesis
        using script_stages [OF parsed] Inr p ls replace_day1_error [OF Inl] by simp
    next
      case start: (Inr start)
      show ?thesis
        using script_stages [OF parsed] Inr p ls start for_launches_error
        by (metis (no_types, lifting) first_launch.simps(2) sum.simps(5,6))
    qed
  qed
qed

text \<open>
  C9: a file with no record passes \<open>read_csv\<close> and the sort, and the run then fails
  with \<open>IndexError\<close> at \<open>launches[0]\<close>, before the loop and with no output file. For
  every file with at least one record the run never ends with \<open>IndexError\<close>, and
  whenever the run gets past the sort the list is not empty and \<open>launches[0]\<close> is its
  first element.
\<close>

theorem empty_input_index_error:
  "read_csv [] = Inr [] \<and> sorted_launches clock [] 0 = Inr ([], 0) \<and>
   first_launch ([] :: pyval launch list) = Inl IndexError \<and>
   main clock [] = Inl IndexError \<and>
   (csv \<noteq> [] \<longrightarrow> main clock csv \<noteq> Inl IndexError) \<and>
   (csv \<noteq> [] \<and> read_csv csv = Inr parsed \<and> sorted_launches clock parsed 0 = Inr (ls, n) \<longrightarrow>
      (\<exists>l0 rest. ls = l0 # rest \<and> first_launch ls = Inr l0))"
proof -
  have a: "sorted_launches clock [] 0 = Inr ([], 0)"
    by (simp add: sorted_launches_def sort_decorated_def)
  have b: "main clock [] = Inl IndexError"
    by (simp add: main_def script_def a)
  have c: "csv \<noteq> [] \<longrightarrow> main clock csv \<noteq> Inl IndexError"
    using script_not_IndexError [of csv clock] by (simp add: main_Inl)
  have d: "csv \<noteq> [] \<and> read_csv csv = Inr parsed \<and> sorted_launches clock parsed 0 = Inr (ls, n) \<longrightarrow>
      (\<exists>l0 rest. ls = l0 # rest \<and> first_launch ls = Inr l0)"
  proof (intro impI, elim conjE)
    assume h: "csv \<noteq> []" "read_csv csv = Inr parsed"
      "sorted_launches clock parsed 0 = Inr (ls, n)"
    have "length ls = length csv"
      using sorted_launches_length [OF h(3)] read_csv_length [OF h(2)] by simp
    then obtain l0 rest where "ls = l0 # rest" using h(1) by (cases ls) auto
    then show "\<exists>l0 rest. ls = l0 # rest \<and> first_launch ls = Inr l0" by simp
  qed
  show ?thesis using a b c d by simp
qed

theorem empty_input_index_error_witness:
  "main (\<lambda>n. midnight 2022 3 15)
     [\<lparr>Sat_ID = ''Tintin A'', SSN = ''S43216'', Status = ''R'', Launch_Date = ''2018 Feb 22'',
       Fail_Date = ''*'', Reentry_Date = ''-''\<rparr>] \<noteq> Inl IndexError \<and>
   (\<exists>l0 rest.
      [\<lparr>Sat_ID = ''Tintin A'', SSN = ''S43216'', Status = ''R'',
        Launch_Date = DT (midnight 2018 2 22), Fail_Date = Str ''*'',
        Reentry_Date = Str ''-''\<rparr>] = l0 # rest \<and>
      first_launch
        [\<lparr>Sat_ID = ''Tintin A'', SSN = ''S43216'', Status = ''R'',
          Launch_Date = DT (midnight 2018 2 22), Fail_Date = Str ''*'',
          Reentry_Date = Str ''-''\<rparr>] = Inr l0)"
proof -
  let ?clk = "\<lambda>n::nat. midnight 2022 3 15"
  let ?r = "\<lparr>Sat_ID = ''Tintin A'', SSN = ''S43216'', Status = ''R'',
           Launch_Date = ''2018 Feb 22'', Fail_Date = ''*'', Reentry_Date = ''-''\<rparr>"
  let ?p = "\<lparr>Sat_ID = ''Tintin A'', SSN = ''S43216'', Status = ''R'',
           Launch_Date = DT (midnight 2018 2 22), Fail_Date = Str ''*'',
           Reentry_Date = Str ''-''\<rparr>"
  have a: "read_csv [?r] = Inr [?p]" by code_simp
  have b: "sorted_launches ?clk [?p] 0 = Inr ([?p], 1)" by code_simp
  show ?thesis
    using empty_input_index_error [of ?clk "[?r]" "[?p]" "[?p]" 1] a b
    by simp
qed

lemma key_list_member:
  "l \<in> set ls \<Longrightarrow> Reentry_Date l \<noteq> Str ''-'' \<Longrightarrow>
     (Reentry_Date l, l) \<in> set (fst (key_list clock ls n))"
  by (induction ls arbitrary: n) (auto simp: Let_def reentry_date_def)

lemma str_item_snd: "str_item x = Some y \<Longrightarrow> snd y = snd x \<and> fst x = Str (fst y)"
  by (cases x rule: str_item.cases) auto

lemma dt_item_snd: "dt_item x = Some y \<Longrightarrow> snd y = snd x \<and> (\<exists>d. fst x = DT d \<and> fst y = dt_key d)"
  by (cases x rule: dt_item.cases) auto

lemma sorted_strings_launches:
  assumes "those (map str_item kls) = Some ss" and "ls = map snd (sort_key fst ss)"
    and "l \<in> set ls"
  shows "\<exists>s. (Str s, l) \<in> set kls"
proof -
  have ss: "ss = map (\<lambda>x. the (str_item x)) kls" and al: "\<forall>x\<in>set kls. str_item x \<noteq> None"
    using assms(1) by (simp_all add: those_map_Some)
  have "l \<in> snd ` set ss" using assms(2,3) by simp
  then obtain y where y: "y \<in> set ss" "snd y = l" by auto
  then obtain x where x: "x \<in> set kls" "y = the (str_item x)" using ss by auto
  then have "str_item x = Some y" using al by auto
  from str_item_snd [OF this] have "snd x = l" "fst x = Str (fst y)" using y(2) by simp_all
  then have "(Str (fst y), l) = x" by (cases x) auto
  then show ?thesis using x(1) by auto
qed

subsection \<open>The wildcard in the reentry column\<close>

lemma wildcard_sort:
  assumes "read_csv csv = Inr parsed" and "l \<in> set parsed" and "Reentry_Date l = Str ''*''"
  shows "sorted_launches clock parsed 0 = Inl TypeError \<or>
         (\<exists>ls n l0 rest. sorted_launches clock parsed 0 = Inr (ls, n) \<and> ls = l0 # rest \<and>
            Reentry_Date l0 = Str ''*'')"
proof -
  let ?kls = "fst (key_list clock parsed 0)"
  have m: "(Str ''*'', l) \<in> set ?kls"
    using key_list_member [OF assms(2), of clock 0] assms(3) by simp
  have "dt_item (Str ''*'', l) = None" by simp
  then have dn: "those (map dt_item ?kls) = None"
    using m those_map_None [of dt_item ?kls] by blast
  show ?thesis
  proof (cases "those (map str_item ?kls)")
    case None
    then have "sort_decorated ?kls = Inl TypeError"
      using dn by (simp add: sort_decorated_def)
    then show ?thesis by (simp add: sorted_launches_def Let_def)
  next
    case (Some ss)
    let ?ls = "map snd (sort_key fst ss)"
    have sd: "sort_decorated ?kls = Inr ?ls"
      using dn Some by (simp add: sort_decorated_def)
    then have sl: "sorted_launches clock parsed 0 = Inr (?ls, snd (key_list clock parsed 0))"
      by (simp add: sorted_launches_def Let_def)
    have "length ?ls = length parsed"
      using sorted_launches_length [OF sl] .
    then obtain l0 rest where ls: "?ls = l0 # rest"
      using assms(2) by (cases ?ls) auto
    then have "l0 \<in> set ?ls" by simp
    then obtain s where s: "(Str s, l0) \<in> set ?kls"
      using sorted_strings_launches [OF Some refl] by blast
    have k: "Reentry_Date l0 = Str s" "s \<noteq> ''-''"
      using key_list_keys [OF s] by auto
    have "l0 \<in> set parsed"
      using s key_list_snd [of clock parsed 0] by (metis image_eqI snd_conv set_map)
    then have "Reentry_Date l0 = Str ''*''"
      using read_csv_Reentry_values [OF assms(1)] k by fastforce
    then have "sorted_launches clock parsed 0 = Inr (l0 # rest, snd (key_list clock parsed 0)) \<and>
        l0 # rest = l0 # rest \<and> Reentry_Date l0 = Str ''*''"
      using sl ls by simp
    then show ?thesis by (intro disjI2 exI)
  qed
qed

text \<open>
  C10, as stated, has every file with a \<open>*\<close> reentry date end in a type error. A
  file whose only record has the reentry date \<open>*\<close> and a launch date that parses in
  neither format ends in \<open>ValueError\<close>: \<open>read_csv\<close> raises before the sort.
\<close>

theorem wildcard_with_malformed_field_value_error:
  "main (\<lambda>n. midnight 2022 3 15)
     [\<lparr>Sat_ID = ''Tintin A'', SSN = ''S43216'', Status = ''R'', Launch_Date = ''20/01/2020'',
       Fail_Date = ''-'', Reentry_Date = ''*''\<rparr>] = Inl ValueError"
  by code_simp

text \<open>
  C10 (amended): \<open>reentry_date\<close> hands \<open>*\<close> back unchanged, so for every file
  whose date columns all parse and that has at least one record with the reentry date
  \<open>*\<close>, the run ends with \<open>TypeError\<close> and no output file: either the sort raises it,
  or the sort succeeds, the first record's reentry date is \<open>*\<close>, and
  \<open>replace(day=1)\<close> on that string raises it.
\<close>

theorem wildcard_reentry_type_error:
  assumes "read_csv csv = Inr parsed" and "row \<in> set csv" and "Reentry_Date row = ''*''"
  shows "main clock csv = Inl TypeError \<and>
         (sorted_launches clock parsed 0 = Inl TypeError \<or>
          (\<exists>ls n l0. sorted_launches clock parsed 0 = Inr (ls, n) \<and>
             first_launch ls = Inr l0 \<and> Reentry_Date l0 = Str ''*'' \<and>
             replace_day1 (fst (reentry_date clock l0 n)) = Inl TypeError))"
proof -
  obtain l where l: "l \<in> set parsed" "Reentry_Date l = Str ''*''"
    using read_csv_star [OF assms] by blast
  note w = wildcard_sort [OF assms(1) l, of clock]
  show ?thesis
  proof (cases "sorted_launches clock parsed 0")
    case (Inl e)
    then have e: "sorted_launches clock parsed 0 = Inl TypeError"
      using sorted_launches_error by blast
    then have "main clock csv = Inl TypeError"
      using assms(1) by (simp add: main_Inl script_def)
    then show ?thesis using e by simp
  next
    case (Inr p)
    then obtain ls n l0 rest where s: "sorted_launches clock parsed 0 = Inr (ls, n)"
        "ls = l0 # rest" "Reentry_Date l0 = Str ''*''"
      using w by auto
    have r: "replace_day1 (fst (reentry_date clock l0 n)) = Inl TypeError"
      using s(3) by (simp add: reentry_date_def)
    have f: "first_launch ls = Inr l0" using s(2) by simp
    have "script clock csv = Inl TypeError"
      using script_stages [OF assms(1) s(1)] f r by simp
    then have "main clock csv = Inl TypeError" by (simp add: main_Inl)
    moreover have "\<exists>ls n l0. sorted_launches clock parsed 0 = Inr (ls, n) \<and>
             first_launch ls = Inr l0 \<and> Reentry_Date l0 = Str ''*'' \<and>
             replace_day1 (fst (reentry_date clock l0 n)) = Inl TypeError"
      using s(1,3) f r by (intro exI conjI)
    ultimately show ?thesis by simp
  qed
qed

theorem wildcard_reentry_type_error_witness:
  "main (\<lambda>n. midnight 2022 3 15)
     [\<lparr>Sat_ID = ''Tintin A'', SSN = ''S43216'', Status = ''R'', Launch_Date = ''2018 Feb 22'',
       Fail_Date = ''-'', Reentry_Date = ''*''\<rparr>] = Inl TypeError \<and>
   main (\<lambda>n. midnight 2022 3 15)
     [\<lparr>Sat_ID = ''Tintin A'', SSN = ''S43216'', Status = ''R'', Launch_Date = ''2018 Feb 22'',
       Fail_Date = ''-'', Reentry_Date = ''*''\<rparr>,
      \<lparr>Sat_ID = ''Tintin B'', SSN = ''S43217'', Status = ''R'', Launch_Date = ''2018 Feb 22'',
       Fail_Date = ''2020 Aug 08'', Reentry_Date = ''2020 Aug 29''\<rparr>] = Inl TypeError"
proof -
  let ?clk = "\<lambda>n::nat. midnight 2022 3 15"
  let ?a = "\<lparr>Sat_ID = ''Tintin A'', SSN = ''S43216'', Status = ''R'',
       Launch_Date = ''2018 Feb 22'', Fail_Date = ''-'', Reentry_Date = ''*''\<rparr>"
  let ?b = "\<lparr>Sat_ID = ''Tintin B'', SSN = ''S43217'', Status = ''R'',
       Launch_Date = ''2018 Feb 22'', Fail_Date = ''2020 Aug 08'',
       Reentry_Date = ''2020 Aug 29''\<rparr>"
  let ?pa = "\<lparr>Sat_ID = ''Tintin A'', SSN = ''S43216'', Status = ''R'',
       Launch_Date = DT (midnight 2018 2 22), Fail_Date = Str ''-'',
       Reentry_Date = Str ''*''\<rparr>"
  let ?pb = "\<lparr>Sat_ID = ''Tintin B'', SSN = ''S43217'', Status = ''R'',
       Launch_Date = DT (midnight 2018 2 22), Fail_Date = DT (midnight 2020 8 8),
       Reentry_Date = DT (midnight 2020 8 29)\<rparr>"
  have r1: "read_csv [?a] = Inr [?pa]" by code_simp
  have r2: "read_csv [?a, ?b] = Inr [?pa, ?pb]" by code_simp
  show ?thesis
    using wildcard_reentry_type_error [OF r1, of ?a ?clk]
      wildcard_reentry_type_error [OF r2, of ?a ?clk]
    by simp
qed

subsection \<open>The while loop\<close>

lemma div12:
  assumes "0 \<le> (m::int)" "m < 12"
  shows "(y * 12 + m) div 12 = y" "(y * 12 + m) mod 12 = m"
  using assms by (simp_all add: div_pos_pos_trivial)

lemma month_index_shift: "month_index (shift_month d k) = month_index d + k"
  by (simp add: month_index_def shift_month_def)

lemma shift_month_0: "check_fields d \<Longrightarrow> shift_month d 0 = d"
  using div12 [of "month d - 1" "year d"]
  by (simp add: shift_month_def month_index_def check_fields_def)

lemma shift_month_shift: "shift_month (shift_month d j) k = shift_month d (j + k)"
  by (simp add: shift_month_def month_index_def add.assoc)

lemma days_in_month_ge: "28 \<le> days_in_month y m"
  by (simp add: days_in_month_def)

lemma month_anchor_shift:
  assumes "month_anchor d" "0 \<le> k" "month_index d + k \<le> 119999"
  shows "month_anchor (shift_month d k)"
proof -
  let ?i = "month_index d + k"
  have i: "12 \<le> ?i" using assms(1,2)
    by (simp add: month_anchor_def check_fields_def month_index_def MINYEAR_def)
  have "12 div 12 \<le> ?i div 12" using i by (intro zdiv_mono1) simp_all
  then have y1: "1 \<le> ?i div 12" by simp
  have "?i div 12 \<le> 119999 div 12" using assms(3) by (intro zdiv_mono1) simp_all
  then have y2: "?i div 12 \<le> 9999" by simp
  have m: "0 \<le> ?i mod 12" "?i mod 12 < 12" by simp_all
  have dm: "1 \<le> days_in_month (?i div 12) (?i mod 12 + 1)"
    using days_in_month_ge [of "?i div 12" "?i mod 12 + 1"] by linarith
  show ?thesis
    using assms(1) y1 y2 m dm
    by (simp add: month_anchor_def check_fields_def shift_month_def
          MINYEAR_def MAXYEAR_def)
qed

lemma increment_month_anchor:
  assumes "month_anchor d"
  shows "increment_month d =
           (if month_index d < 119999 then Inr (shift_month d 1) else Inl ValueError)"
proof (cases "month d = 12")
  case True
  have "(year d * 12 + 12) div 12 = year d + 1" "(year d * 12 + 12) mod 12 = 0"
    by simp_all
  then have s: "shift_month d 1 = d\<lparr>year := year d + 1, month := 1\<rparr>"
    using True by (simp add: shift_month_def month_index_def)
  have c: "check_fields d" "day d = 1" using assms by (simp_all add: month_anchor_def)
  show ?thesis
    using increment_month_december [OF c True] True s
    by (simp add: month_index_def MAXYEAR_def)
next
  case False
  have c: "check_fields d" "day d = 1" using assms by (simp_all add: month_anchor_def)
  then have m: "1 \<le> month d" "month d < 12" "year d \<le> 9999"
    using False by (simp_all add: check_fields_def MAXYEAR_def)
  have "(year d * 12 + month d) div 12 = year d" "(year d * 12 + month d) mod 12 = month d"
    using div12 [of "month d" "year d"] m by simp_all
  then have s: "shift_month d 1 = d\<lparr>month := month d + 1\<rparr>"
    by (simp add: shift_month_def month_index_def)
  show ?thesis
    using increment_month_other [OF c m(2)] s m by (simp add: month_index_def)
qed

lemma dt_key_ge_anchor:
  assumes "check_fields r" "month_anchor a"
  shows "dt_key a \<le> dt_key r \<longleftrightarrow> month_index a \<le> month_index r"
  using assms
  by (auto simp: dt_key_def month_anchor_def check_fields_def month_index_def)

lemma dt_key_le_month_index:
  assumes "check_fields a" "check_fields b" "dt_key a \<le> dt_key b"
  shows "month_index a \<le> month_index b"
  using assms
  by (auto simp: dt_key_def check_fields_def month_index_def)

lemma reentry_date_dated:
  "Reentry_Date l = DT r \<Longrightarrow> reentry_date clock l n = (DT r, n)"
  by (simp add: reentry_date_def)

lemma while_flush_dated:
  assumes "Reentry_Date l = DT r" "check_fields r" "month_anchor (cur_date st)"
    "month_index (cur_date st) + int k = month_index r" "month_index r < 119999"
  shows "while_flush clock l st =
           Inr (st\<lparr>monthly_totals :=
                      monthly_totals st @ flushed (cur_date st) (cur_month_total st) k,
                    cur_date := shift_month (cur_date st) (int k),
                    cur_month_total := (if k = 0 then cur_month_total st else 0)\<rparr>)"
  using assms(3,4)
proof (induction k arbitrary: st)
  case 0
  let ?cur = "cur_date st"
  have i: "increment_month ?cur = Inr (shift_month ?cur 1)"
    using increment_month_anchor [OF "0.prems"(1)] "0.prems"(2) assms(5) by simp
  have a: "month_anchor (shift_month ?cur 1)"
    using month_anchor_shift [OF "0.prems"(1), of 1] "0.prems"(2) assms(5) by simp
  have g: "\<not> dt_key (shift_month ?cur 1) \<le> dt_key r"
    using dt_key_ge_anchor [OF assms(2) a] "0.prems"(2)
    by (simp add: month_index_shift)
  have c: "check_fields ?cur" using "0.prems"(1) by (simp add: month_anchor_def)
  show ?case
    by (subst while_flush_step)
       (simp add: i g reentry_date_dated [OF assms(1)] shift_month_0 [OF c])
next
  case (Suc k)
  let ?cur = "cur_date st"
  let ?st1 = "st\<lparr>monthly_totals := monthly_totals st @
                         [\<lparr>Month = strftime_dmY ?cur,
                           Reentered = cur_month_total st,
                           Al = cur_month_total st * AL_CONST\<rparr>],
                       cur_date := shift_month ?cur 1,
                       cur_month_total := 0,
                       now_calls := now_calls st\<rparr>"
  have i: "increment_month ?cur = Inr (shift_month ?cur 1)"
    using increment_month_anchor [OF Suc.prems(1)] Suc.prems(2) assms(5) by simp
  have a: "month_anchor (shift_month ?cur 1)"
    using month_anchor_shift [OF Suc.prems(1), of 1] Suc.prems(2) assms(5) by simp
  have g: "dt_key (shift_month ?cur 1) \<le> dt_key r"
    using dt_key_ge_anchor [OF assms(2) a] Suc.prems(2)
    by (simp add: month_index_shift)
  have a1: "month_anchor (cur_date ?st1)" using a by simp
  have i1: "month_index (cur_date ?st1) + int k = month_index r"
    using Suc.prems(2) by (simp add: month_index_shift)
  have "while_flush clock l st = while_flush clock l ?st1"
    by (subst while_flush_step) (simp add: i g reentry_date_dated [OF assms(1)])
  also have "\<dots> = Inr (?st1\<lparr>monthly_totals :=
                      monthly_totals ?st1 @ flushed (cur_date ?st1) (cur_month_total ?st1) k,
                    cur_date := shift_month (cur_date ?st1) (int k),
                    cur_month_total := (if k = 0 then cur_month_total ?st1 else 0)\<rparr>)"
    by (rule Suc.IH [OF a1 i1])
  also have "\<dots> = Inr (st\<lparr>monthly_totals :=
                      monthly_totals st @ flushed ?cur (cur_month_total st) (Suc k),
                    cur_date := shift_month ?cur (int (Suc k)),
                    cur_month_total := (if Suc k = 0 then cur_month_total st else 0)\<rparr>)"
    by (simp add: shift_month_shift month_row_def)
  finally show ?case .
qed

subsection \<open>The for loop\<close>

lemma flushed_zero:
  "flushed (shift_month d j) 0 k = map (\<lambda>i. month_row (shift_month d (j + int i)) 0) [0..<k]"
proof (induction k arbitrary: j)
  case 0
  show ?case by simp
next
  case (Suc k)
  have "flushed (shift_month d j) 0 (Suc k) =
          month_row (shift_month d j) 0 # flushed (shift_month d (j + 1)) 0 k"
    by (simp add: shift_month_shift)
  also have "\<dots> = month_row (shift_month d (j + int 0)) 0 #
                   map (\<lambda>i. month_row (shift_month d (j + int (Suc i))) 0) [0..<k]"
    by (simp add: Suc.IH add.assoc)
  also have "\<dots> = map (\<lambda>i. month_row (shift_month d (j + int i)) 0) (0 # map Suc [0..<k])"
    by (simp add: comp_def)
  also have "0 # map Suc [0..<k] = [0..<Suc k]"
    by (simp add: map_Suc_upt upt_conv_Cons del: upt_Suc)
  finally show ?case .
qed

lemma flushed_Suc:
  "flushed cur c (Suc k) =
     month_row cur c # map (\<lambda>i. month_row (shift_month cur (int i)) 0) [1..<Suc k]"
proof -
  have "flushed (shift_month cur 1) 0 k =
          map (\<lambda>i. month_row (shift_month cur (1 + int i)) 0) [0..<k]"
    by (rule flushed_zero)
  also have "\<dots> = map ((\<lambda>i. month_row (shift_month cur (int i)) 0) \<circ> Suc) [0..<k]"
    by (simp add: comp_def add.commute)
  also have "\<dots> = map (\<lambda>i. month_row (shift_month cur (int i)) 0) [Suc 0..<Suc k]"
    by (simp only: map_Suc_upt [symmetric] map_map)
  finally show ?thesis by simp
qed

lemma flushed_member:
  assumes "b \<in> set (flushed cur c k)" "check_fields cur"
  shows "\<exists>i c'. 0 \<le> i \<and> i < int k \<and> (c' = c \<or> c' = 0) \<and> b = month_row (shift_month cur i) c'"
proof (cases k)
  case 0
  then show ?thesis using assms by simp
next
  case (Suc j)
  from assms(1) consider "b = month_row cur c"
    | i where "i \<in> set [1..<Suc j]" "b = month_row (shift_month cur (int i)) 0"
    unfolding Suc flushed_Suc by auto
  then show ?thesis
  proof cases
    case 1
    then have "0 \<le> (0::int) \<and> 0 < int k \<and> (c = c \<or> c = 0) \<and> b = month_row (shift_month cur 0) c"
      using Suc shift_month_0 [OF assms(2)] by simp
    then show ?thesis by blast
  next
    case 2
    then have "i < k" using Suc by auto
    then have "0 \<le> int i \<and> int i < int k \<and> ((0::int) = c \<or> (0::int) = 0) \<and>
        b = month_row (shift_month cur (int i)) 0"
      using 2 by simp
    then show ?thesis by blast
  qed
qed

lemma while_flush_maxyear:
  assumes "Reentry_Date l = DT r" "check_fields r" "month_anchor (cur_date st)"
    "month_index (cur_date st) + int k = month_index r" "month_index r = 119999"
  shows "while_flush clock l st = Inl ValueError"
  using assms(3,4)
proof (induction k arbitrary: st)
  case 0
  have "increment_month (cur_date st) = Inl ValueError"
    using increment_month_anchor [OF "0.prems"(1)] "0.prems"(2) assms(5) by simp
  then show ?case by (subst while_flush_step) simp
next
  case (Suc k)
  let ?cur = "cur_date st"
  let ?st1 = "st\<lparr>monthly_totals := monthly_totals st @
                         [\<lparr>Month = strftime_dmY ?cur,
                           Reentered = cur_month_total st,
                           Al = cur_month_total st * AL_CONST\<rparr>],
                       cur_date := shift_month ?cur 1,
                       cur_month_total := 0,
                       now_calls := now_calls st\<rparr>"
  have i: "increment_month ?cur = Inr (shift_month ?cur 1)"
    using increment_month_anchor [OF Suc.prems(1)] Suc.prems(2) assms(5) by simp
  have a: "month_anchor (shift_month ?cur 1)"
    using month_anchor_shift [OF Suc.prems(1), of 1] Suc.prems(2) assms(5) by simp
  have g: "dt_key (shift_month ?cur 1) \<le> dt_key r"
    using dt_key_ge_anchor [OF assms(2) a] Suc.prems(2)
    by (simp add: month_index_shift)
  have a1: "month_anchor (cur_date ?st1)" using a by simp
  have i1: "month_index (cur_date ?st1) + int k = month_index r"
    using Suc.prems(2) by (simp add: month_index_shift)
  have "while_flush clock l st = while_flush clock l ?st1"
    by (subst while_flush_step) (simp add: i g reentry_date_dated [OF assms(1)])
  then show ?case using Suc.IH [OF a1 i1] by simp
qed

lemma row_before_mono: "row_before K b \<Longrightarrow> K \<le> K' \<Longrightarrow> row_before K' b"
  by (auto simp: row_before_def)

lemma row_before_month_row:
  assumes "month_anchor d" "month_index d < K" "0 \<le> c"
  shows "row_before K (month_row d c)"
  using assms by (auto simp: row_before_def month_row_def)

text \<open>One launch of the loop, when the running month is not after the launch's.\<close>

lemma while_flush_invariant:
  assumes "Reentry_Date l = DT r" "check_fields r" "month_anchor (cur_date st)"
    "month_index (cur_date st) \<le> month_index r"
    "\<forall>b\<in>set (monthly_totals st). row_before (month_index (cur_date st)) b"
    "0 \<le> cur_month_total st"
    "while_flush clock l st = Inr st'"
  shows "month_anchor (cur_date st')" "month_index (cur_date st') = month_index r"
    "\<forall>b\<in>set (monthly_totals st'). row_before (month_index (cur_date st')) b"
    "0 \<le> cur_month_total st'"
proof -
  define k where "k = nat (month_index r - month_index (cur_date st))"
  have k: "month_index (cur_date st) + int k = month_index r"
    using assms(4) by (simp add: k_def)
  have "month_index r \<le> 119999"
    using assms(2) by (simp add: check_fields_def month_index_def MAXYEAR_def)
  moreover have "month_index r \<noteq> 119999"
    using while_flush_maxyear [OF assms(1,2,3) k] assms(7) by auto
  ultimately have lt: "month_index r < 119999" by simp
  note cf = while_flush_dated [OF assms(1,2,3) k lt, of clock]
  have st': "st' = st\<lparr>monthly_totals :=
                      monthly_totals st @ flushed (cur_date st) (cur_month_total st) k,
                    cur_date := shift_month (cur_date st) (int k),
                    cur_month_total := (if k = 0 then cur_month_total st else 0)\<rparr>"
    using cf assms(7) by simp
  show a: "month_anchor (cur_date st')"
    using month_anchor_shift [OF assms(3), of "int k"] k lt by (simp add: st')
  show i: "month_index (cur_date st') = month_index r"
    using k by (simp add: st' month_index_shift)
  show "0 \<le> cur_month_total st'"
    using assms(6) by (simp add: st')
  have c: "check_fields (cur_date st)" using assms(3) by (simp add: month_anchor_def)
  show "\<forall>b\<in>set (monthly_totals st'). row_before (month_index (cur_date st')) b"
  proof
    fix b assume "b \<in> set (monthly_totals st')"
    then consider "b \<in> set (monthly_totals st)"
      | "b \<in> set (flushed (cur_date st) (cur_month_total st) k)"
      by (auto simp: st')
    then show "row_before (month_index (cur_date st')) b"
    proof cases
      case 1
      then show ?thesis
        using assms(5) row_before_mono [of "month_index (cur_date st)" b "month_index r"]
          assms(4) i by simp
    next
      case 2
      then obtain j c' where j: "0 \<le> j" "j < int k"
          "c' = cur_month_total st \<or> c' = 0" "b = month_row (shift_month (cur_date st) j) c'"
        using flushed_member [OF 2 c] by blast
      have "month_anchor (shift_month (cur_date st) j)"
        using month_anchor_shift [OF assms(3) j(1)] j(2) k lt by simp
      moreover have "month_index (shift_month (cur_date st) j) < month_index r"
        using j(2) k by (simp add: month_index_shift)
      moreover have "0 \<le> c'" using j(3) assms(6) by auto
      ultimately show ?thesis
        using row_before_month_row j(4) i by simp
    qed
  qed
qed

lemma for_launches_consumed:
  "for_launches clock ls st = for_launches clock (consumed ls) st"
proof (induction ls arbitrary: st)
  case Nil
  show ?case by (simp add: consumed_def)
next
  case (Cons l ls)
  show ?case
  proof (cases "Reentry_Date l = Str ''-''")
    case True
    then show ?thesis by (simp add: consumed_def dated_def)
  next
    case False
    then have c: "consumed (l # ls) = l # consumed ls"
      by (simp add: consumed_def dated_def)
    show ?thesis
    proof (cases "while_flush clock l st")
      case (Inl e)
      then show ?thesis using False c by simp
    next
      case (Inr st1)
      then show ?thesis using False c Cons.IH by simp
    qed
  qed
qed

lemma for_launches_invariant:
  assumes "\<forall>l\<in>set xs. \<exists>r. Reentry_Date l = DT r \<and> check_fields r"
    "sorted (map reentry_month xs)"
    "month_anchor (cur_date st)"
    "\<forall>l\<in>set xs. month_index (cur_date st) \<le> reentry_month l"
    "\<forall>b\<in>set (monthly_totals st). row_before (month_index (cur_date st)) b"
    "0 \<le> cur_month_total st"
    "for_launches clock xs st = Inr st'"
  shows "month_anchor (cur_date st') \<and>
         (\<forall>b\<in>set (monthly_totals st'). row_before (month_index (cur_date st')) b) \<and>
         0 \<le> cur_month_total st' \<and>
         (xs \<noteq> [] \<longrightarrow> month_index (cur_date st') = reentry_month (last xs) \<and>
                      1 \<le> cur_month_total st')"
  using assms
proof (induction xs arbitrary: st)
  case Nil
  then show ?case by simp
next
  case (Cons l xs)
  obtain r where r: "Reentry_Date l = DT r" "check_fields r"
    using Cons.prems(1) by auto
  have rm: "reentry_month l = month_index r" using r(1) by (simp add: reentry_month_def)
  have le: "month_index (cur_date st) \<le> month_index r"
    using Cons.prems(4) rm by simp
  obtain st1 where st1: "while_flush clock l st = Inr st1"
    using Cons.prems(7) r(1) by (cases "while_flush clock l st") simp_all
  note inv = while_flush_invariant [OF r Cons.prems(3) le Cons.prems(5,6) st1]
  let ?st2 = "st1\<lparr>cur_month_total := cur_month_total st1 + 1\<rparr>"
  have run: "for_launches clock xs ?st2 = Inr st'"
    using Cons.prems(7) r(1) st1 by simp
  have p1: "\<forall>l\<in>set xs. \<exists>r. Reentry_Date l = DT r \<and> check_fields r"
    using Cons.prems(1) by simp
  have p2: "sorted (map reentry_month xs)" using Cons.prems(2) by simp
  have p3: "month_anchor (cur_date ?st2)" using inv(1) by simp
  have p4: "\<forall>l'\<in>set xs. month_index (cur_date ?st2) \<le> reentry_month l'"
    using Cons.prems(2) inv(2) rm by simp
  have p5: "\<forall>b\<in>set (monthly_totals ?st2). row_before (month_index (cur_date ?st2)) b"
    using inv(3) by simp
  have p6: "0 \<le> cur_month_total ?st2" using inv(4) by simp
  note ih = Cons.IH [OF p1 p2 p3 p4 p5 p6 run]
  show ?case
  proof (cases "xs = []")
    case True
    then have "st' = ?st2" using run by simp
    then show ?thesis using True inv rm by simp
  next
    case False
    then have la: "last (l # xs) = last xs" by simp
    from ih have i1: "month_anchor (cur_date st')"
      and i2: "\<forall>b\<in>set (monthly_totals st'). row_before (month_index (cur_date st')) b"
      and i3: "0 \<le> cur_month_total st'"
      and i4: "xs \<noteq> [] \<longrightarrow> month_index (cur_date st') = reentry_month (last xs) \<and>
                      1 \<le> cur_month_total st'"
      by blast+
    from i4 False have i5: "month_index (cur_date st') = reentry_month (last (l # xs))"
      and i6: "1 \<le> cur_month_total st'"
      unfolding la by blast+
    show ?thesis
      by (intro conjI impI) (rule i1 i2 i3 i5 i6)+
  qed
qed

subsection \<open>The sort\<close>

lemma sorted_dates_pairs:
  assumes "those (map dt_item kls) = Some ds" "kls = fst (key_list clock parsed n)"
  shows "set (map snd (sort_key fst ds)) = set parsed"
    and "sorted (map fst (sort_key fst ds))"
    and "\<forall>x\<in>set (sort_key fst ds).
           (Reentry_Date (snd x) = Str ''-'' \<and> (\<exists>j. fst x = dt_key (clock j))) \<or>
           (\<exists>d. Reentry_Date (snd x) = DT d \<and> fst x = dt_key d)"
proof -
  have ds: "ds = map (\<lambda>x. the (dt_item x)) kls" and al: "\<forall>x\<in>set kls. dt_item x \<noteq> None"
    using assms(1) by (simp_all add: those_map_Some)
  have sn: "map snd ds = map snd kls"
  proof -
    have "\<forall>x\<in>set kls. snd (the (dt_item x)) = snd x"
      using al dt_item_snd by fastforce
    then show ?thesis by (simp add: ds)
  qed
  have "set (map snd (sort_key fst ds)) = set (map snd ds)" by simp
  also have "\<dots> = set parsed"
    using sn key_list_snd [of clock parsed n] assms(2) by simp
  finally show "set (map snd (sort_key fst ds)) = set parsed" .
  show "sorted (map fst (sort_key fst ds))" by simp
  show "\<forall>x\<in>set (sort_key fst ds).
           (Reentry_Date (snd x) = Str ''-'' \<and> (\<exists>j. fst x = dt_key (clock j))) \<or>
           (\<exists>d. Reentry_Date (snd x) = DT d \<and> fst x = dt_key d)"
  proof
    fix y assume "y \<in> set (sort_key fst ds)"
    then have "y \<in> set ds" by simp
    then obtain x where x: "x \<in> set kls" "y = the (dt_item x)" using ds by auto
    then have xy: "dt_item x = Some y" using al by auto
    from dt_item_snd [OF xy] obtain d where d: "snd y = snd x" "fst x = DT d" "fst y = dt_key d"
      by blast
    have "(fst x, snd x) \<in> set (fst (key_list clock parsed n))"
      using x(1) assms(2) by simp
    from key_list_keys [OF this]
    consider j where "Reentry_Date (snd x) = Str ''-''" "fst x = DT (clock j)"
      | "Reentry_Date (snd x) = fst x"
      by metis
    then show "(Reentry_Date (snd y) = Str ''-'' \<and> (\<exists>j. fst y = dt_key (clock j))) \<or>
           (\<exists>d. Reentry_Date (snd y) = DT d \<and> fst y = dt_key d)"
    proof cases
      case 1
      then have "fst y = dt_key (clock j)" using d by simp
      then show ?thesis using 1(1) d(1) by auto
    next
      case 2
      then have "Reentry_Date (snd y) = DT d" using d by simp
      then show ?thesis using d(3) by blast
    qed
  qed
qed

lemma takeWhile_filter:
  "sorted_wrt (\<lambda>a b. P b \<longrightarrow> P a) xs \<Longrightarrow> takeWhile P xs = filter P xs"
proof (induction xs)
  case Nil
  show ?case by simp
next
  case (Cons x xs)
  show ?case
  proof (cases "P x")
    case True
    then show ?thesis using Cons by simp
  next
    case False
    then have "\<forall>b\<in>set xs. \<not> P b" using Cons.prems by auto
    then have "filter P xs = []" by (simp add: filter_empty_conv)
    then show ?thesis using False by simp
  qed
qed

lemma script_wildcard:
  assumes "read_csv csv = Inr parsed" "l \<in> set parsed" "Reentry_Date l = Str ''*''"
  shows "script clock csv = Inl TypeError"
proof (cases "sorted_launches clock parsed 0")
  case (Inl e)
  then have "sorted_launches clock parsed 0 = Inl TypeError"
    using sorted_launches_error by blast
  then show ?thesis using assms(1) by (simp add: script_def)
next
  case (Inr p)
  then obtain ls n l0 rest where s: "sorted_launches clock parsed 0 = Inr (ls, n)"
      "ls = l0 # rest" "Reentry_Date l0 = Str ''*''"
    using wildcard_sort [OF assms, of clock] by auto
  have "replace_day1 (fst (reentry_date clock l0 n)) = Inl TypeError"
    using s(3) by (simp add: reentry_date_def)
  then show ?thesis
    using script_stages [OF assms(1) s(1)] s(2) by simp
qed

lemma parsed_no_wildcard:
  assumes "read_csv csv = Inr parsed" "script clock csv = Inr st" "l \<in> set parsed"
  shows "Reentry_Date l = Str ''-'' \<or>
         (\<exists>y m d. Reentry_Date l = DT (midnight y m d) \<and> check_fields (midnight y m d))"
proof -
  have "Reentry_Date l \<noteq> Str ''*''"
    using script_wildcard [OF assms(1,3), of clock] assms(2) by auto
  then show ?thesis
    using read_csv_Reentry_values [OF assms(1,3)] by blast
qed

lemma sorted_launches_pairs:
  assumes "sorted_launches clock parsed n = Inr (ls, n')"
    and "\<forall>l\<in>set parsed. Reentry_Date l = Str ''-'' \<or> (\<exists>d. Reentry_Date l = DT d)"
  shows "\<exists>sds. ls = map snd sds \<and> set ls = set parsed \<and> sorted (map fst sds) \<and>
           (\<forall>x\<in>set sds.
              (Reentry_Date (snd x) = Str ''-'' \<and> (\<exists>j. fst x = dt_key (clock j))) \<or>
              (\<exists>d. Reentry_Date (snd x) = DT d \<and> fst x = dt_key d))"
proof -
  let ?kls = "fst (key_list clock parsed n)"
  have "\<forall>x\<in>set ?kls. dt_item x \<noteq> None"
  proof
    fix x assume x: "x \<in> set ?kls"
    then have "(fst x, snd x) \<in> set ?kls" by simp
    from key_list_keys [OF this] have k: "(\<exists>j. fst x = DT (clock j)) \<or> fst x = Reentry_Date (snd x)"
      by auto
    have "snd x \<in> set parsed"
      using x key_list_snd [of clock parsed n] by (metis image_eqI set_map)
    then have "\<exists>d. fst x = DT d" using k assms(2) by (metis pyval.distinct(1) key_list_keys prod.collapse x)
    then obtain d where "fst x = DT d" by blast
    then have "dt_item x = Some (dt_key d, snd x)" by (cases x) simp
    then show "dt_item x \<noteq> None" by simp
  qed
  then obtain ds where ds: "those (map dt_item ?kls) = Some ds"
    using those_map_Some [of dt_item ?kls] by blast
  have "sort_decorated ?kls = Inr (map snd (sort_key fst ds))"
    using ds by (simp add: sort_decorated_def)
  then have ls: "ls = map snd (sort_key fst ds)"
    using sorted_launches_Inr [OF assms(1)] by simp
  note p = sorted_dates_pairs [OF ds refl]
  show ?thesis
    using ls p by (intro exI [of _ "sort_key fst ds"]) simp
qed

lemma consumed_dated:
  assumes "l \<in> set (consumed ls)"
  shows "l \<in> set ls" "Reentry_Date l \<noteq> Str ''-''"
  using assms set_takeWhileD [of l dated ls] by (simp_all add: consumed_def dated_def)

lemma consumed_sorted:
  assumes "sorted_launches clock parsed n = Inr (ls, n')"
    and "\<forall>l\<in>set parsed. Reentry_Date l = Str ''-'' \<or>
           (\<exists>d. Reentry_Date l = DT d \<and> check_fields d)"
  shows "sorted (map reentry_month (consumed ls))"
    and "\<forall>l\<in>set (consumed ls). \<exists>r. Reentry_Date l = DT r \<and> check_fields r"
proof -
  have v: "\<forall>l\<in>set parsed. Reentry_Date l = Str ''-'' \<or> (\<exists>d. Reentry_Date l = DT d)"
    using assms(2) by blast
  obtain sds where sds: "ls = map snd sds" "set ls = set parsed" "sorted (map fst sds)"
      "\<forall>x\<in>set sds.
          (Reentry_Date (snd x) = Str ''-'' \<and> (\<exists>j. fst x = dt_key (clock j))) \<or>
          (\<exists>d. Reentry_Date (snd x) = DT d \<and> fst x = dt_key d)"
    using sorted_launches_pairs [OF assms(1) v] by blast
  let ?Q = "\<lambda>a b. dated a \<and> dated b \<longrightarrow> reentry_month a \<le> reentry_month b"
  have "sorted_wrt (\<lambda>x y. fst x \<le> fst y) sds"
    using sds(3) by (simp add: sorted_map)
  then have "sorted_wrt (\<lambda>x y. ?Q (snd x) (snd y)) sds"
  proof (rule sorted_wrt_mono_rel [rotated])
    fix x y assume x: "x \<in> set sds" and y: "y \<in> set sds" and le: "fst x \<le> fst y"
    show "?Q (snd x) (snd y)"
    proof (intro impI, elim conjE)
      assume dx: "dated (snd x)" and dy: "dated (snd y)"
      obtain a where a: "Reentry_Date (snd x) = DT a" "fst x = dt_key a"
        using sds(4) x dx by (auto simp: dated_def)
      obtain b where b: "Reentry_Date (snd y) = DT b" "fst y = dt_key b"
        using sds(4) y dy by (auto simp: dated_def)
      have "snd x \<in> set parsed" "snd y \<in> set parsed"
        using x y sds(1,2) by auto
      then have "check_fields a" "check_fields b"
        using assms(2) a(1) b(1) by auto
      then have "month_index a \<le> month_index b"
        using dt_key_le_month_index le a(2) b(2) by simp
      then show "reentry_month (snd x) \<le> reentry_month (snd y)"
        using a(1) b(1) by (simp add: reentry_month_def)
    qed
  qed
  then have q: "sorted_wrt ?Q ls"
    by (simp add: sds(1) sorted_wrt_map)
  have t: "consumed ls = take (length (consumed ls)) ls"
    unfolding consumed_def by (rule takeWhile_eq_take)
  have "sorted_wrt ?Q (take (length (consumed ls)) ls)"
    by (rule sorted_wrt_take [OF q])
  then have "sorted_wrt ?Q (consumed ls)"
    by (subst t)
  then have "sorted_wrt (\<lambda>a b. reentry_month a \<le> reentry_month b) (consumed ls)"
  proof (rule sorted_wrt_mono_rel [rotated])
    fix a b assume "a \<in> set (consumed ls)" "b \<in> set (consumed ls)" "?Q a b"
    then show "reentry_month a \<le> reentry_month b"
      using consumed_dated(2) by (simp add: dated_def)
  qed
  then show "sorted (map reentry_month (consumed ls))"
    by (simp add: sorted_map)
  show "\<forall>l\<in>set (consumed ls). \<exists>r. Reentry_Date l = DT r \<and> check_fields r"
  proof
    fix l assume l: "l \<in> set (consumed ls)"
    then have "l \<in> set parsed" "Reentry_Date l \<noteq> Str ''-''"
      using consumed_dated [OF l] sds(2) by simp_all
    then show "\<exists>r. Reentry_Date l = DT r \<and> check_fields r"
      using assms(2) by blast
  qed
qed


subsection \<open>The result of the script\<close>

lemma replace_day1_midnight:
  assumes "check_fields (midnight y m d)"
  shows "replace_day1 (DT (midnight y m d)) = Inr (midnight y m 1)"
    and "month_anchor (midnight y m 1)"
    and "month_index (midnight y m 1) = month_index (midnight y m d)"
proof -
  have c: "check_fields (midnight y m 1)"
    using assms days_in_month_ge [of y m] by (simp add: check_fields_midnight)
  show "replace_day1 (DT (midnight y m d)) = Inr (midnight y m 1)"
    using c by (simp add: replace_day_def new_datetime_def midnight_def)
  show "month_anchor (midnight y m 1)"
    using c by (simp add: month_anchor_def) (simp add: midnight_def)
  show "month_index (midnight y m 1) = month_index (midnight y m d)"
    by (simp add: month_index_def midnight_def)
qed

lemma script_result:
  assumes "read_csv csv = Inr parsed" "sorted_launches clock parsed 0 = Inr (ls, n)"
    "script clock csv = Inr st"
  shows "consumed ls = [] \<longrightarrow> monthly_totals st = []"
    and "consumed ls \<noteq> [] \<longrightarrow>
           month_anchor (cur_date st) \<and>
           month_index (cur_date st) = reentry_month (last (consumed ls)) \<and>
           1 \<le> cur_month_total st \<and>
           (\<forall>b\<in>set (monthly_totals st). row_before (month_index (cur_date st)) b)"
proof -
  note stages = script_stages [OF assms(1,2), of]
  obtain l0 rest where ls: "ls = l0 # rest"
    using stages assms(3) by (cases ls) simp_all
  obtain start where start: "replace_day1 (fst (reentry_date clock l0 n)) = Inr start"
    using stages assms(3) ls
    by (cases "replace_day1 (fst (reentry_date clock l0 n))") simp_all
  let ?st0 = "\<lparr>cur_date = start, monthly_totals = [], cur_month_total = 0,
               now_calls = snd (reentry_date clock l0 n)\<rparr>"
  have run: "for_launches clock (consumed ls) ?st0 = Inr st"
    using stages assms(3) ls start for_launches_consumed [of clock ls ?st0] by simp
  show "consumed ls = [] \<longrightarrow> monthly_totals st = []"
    using run by auto
  show "consumed ls \<noteq> [] \<longrightarrow>
           month_anchor (cur_date st) \<and>
           month_index (cur_date st) = reentry_month (last (consumed ls)) \<and>
           1 \<le> cur_month_total st \<and>
           (\<forall>b\<in>set (monthly_totals st). row_before (month_index (cur_date st)) b)"
  proof
    assume ne: "consumed ls \<noteq> []"
    have v: "\<forall>l\<in>set parsed. Reentry_Date l = Str ''-'' \<or>
           (\<exists>d. Reentry_Date l = DT d \<and> check_fields d)"
      using parsed_no_wildcard [OF assms(1,3)] by blast
    note cs = consumed_sorted [OF assms(2) v]
    have d0: "dated l0" and c0: "consumed ls = l0 # consumed rest"
      using ne ls by (auto simp: consumed_def split: if_splits)
    have "l0 \<in> set parsed"
      using sorted_launches_pairs [OF assms(2)] v ls by (metis list.set_intros(1))
    then have "Reentry_Date l0 = Str ''-'' \<or>
         (\<exists>y m d. Reentry_Date l0 = DT (midnight y m d) \<and> check_fields (midnight y m d))"
      by (rule parsed_no_wildcard [OF assms(1,3)])
    moreover have "Reentry_Date l0 \<noteq> Str ''-''" using d0 by (simp add: dated_def)
    ultimately obtain y m d where ymd: "Reentry_Date l0 = DT (midnight y m d)"
        "check_fields (midnight y m d)"
      by blast
    have "fst (reentry_date clock l0 n) = DT (midnight y m d)"
      using ymd(1) by (simp add: reentry_date_def)
    then have st: "start = midnight y m 1"
      using start replace_day1_midnight(1) [OF ymd(2)] by simp
    have a: "month_anchor (cur_date ?st0)"
      using replace_day1_midnight(2) [OF ymd(2)] st by simp
    have i: "month_index (cur_date ?st0) = reentry_month l0"
      using replace_day1_midnight(3) [OF ymd(2)] st ymd(1) by (simp add: reentry_month_def)
    have le: "\<forall>l\<in>set (consumed ls). month_index (cur_date ?st0) \<le> reentry_month l"
      using cs(1) c0 i by auto
    have e: "\<forall>b\<in>set (monthly_totals ?st0). row_before (month_index (cur_date ?st0)) b"
      by simp
    have z: "0 \<le> cur_month_total ?st0" by simp
    show "month_anchor (cur_date st) \<and>
           month_index (cur_date st) = reentry_month (last (consumed ls)) \<and>
           1 \<le> cur_month_total st \<and>
           (\<forall>b\<in>set (monthly_totals st). row_before (month_index (cur_date st)) b)"
      using for_launches_invariant [OF cs(2) cs(1) a le e z run] ne by blast
  qed
qed

subsection \<open>The rows of monthly.csv\<close>

lemma pad2_01: "pad2 1 = ''01''"
  by (simp add: pad2_def digit_char_def char_of_eq_iff)

declare strftime_Y.simps [simp del]

lemma strftime_Y_digit: "y < 10 \<Longrightarrow> strftime_Y y = [digit_char y]"
  by (subst strftime_Y.simps) simp

lemma strftime_Y_step:
  "10 \<le> y \<Longrightarrow> strftime_Y y = strftime_Y (y div 10) @ [digit_char (y mod 10)]"
  by (subst strftime_Y.simps) simp

lemma strftime_Y_value:
  "0 \<le> y \<Longrightarrow> foldl (\<lambda>a c. 10 * a + digit_val c) 0 (strftime_Y y) = y"
proof (induction y rule: strftime_Y.induct)
  case (1 y)
  show ?case
  proof (cases "y < 10")
    case True
    then have "digit_val (digit_char y) = y"
      using "1.prems" by (intro digit_val_digit_char) simp_all
    then show ?thesis using True by (simp add: strftime_Y_digit)
  next
    case False
    have m: "digit_val (digit_char (y mod 10)) = y mod 10"
      by (intro digit_val_digit_char) simp_all
    have q: "0 \<le> y div 10" using "1.prems" by simp
    have "foldl (\<lambda>a c. 10 * a + digit_val c) 0 (strftime_Y y) =
            10 * foldl (\<lambda>a c. 10 * a + digit_val c) 0 (strftime_Y (y div 10)) +
            digit_val (digit_char (y mod 10))"
      using False by (simp add: strftime_Y_step)
    also have "\<dots> = 10 * (y div 10) + y mod 10"
      by (simp only: "1.IH" [OF False q] m)
    finally show ?thesis by simp
  qed
qed

lemma strftime_Y_inj:
  assumes "0 \<le> a" "0 \<le> b" "strftime_Y a = strftime_Y b"
  shows "a = b"
proof -
  have "a = foldl (\<lambda>a c. 10 * a + digit_val c) 0 (strftime_Y a)"
    by (simp only: strftime_Y_value [OF assms(1)])
  also have "\<dots> = foldl (\<lambda>a c. 10 * a + digit_val c) 0 (strftime_Y b)"
    by (simp only: assms(3))
  also have "\<dots> = b" by (simp only: strftime_Y_value [OF assms(2)])
  finally show ?thesis .
qed



lemma strftime_anchor:
  assumes "month_anchor d"
  shows "strftime_dmY d = ''01/'' @ pad2 (month d) @ ''/'' @ strftime_Y (year d)"
    and "1 \<le> year d" "year d \<le> 9999" "1 \<le> month d" "month d \<le> 12"
  using assms
  by (simp_all add: strftime_dmY_def month_anchor_def check_fields_def pad2_01
        MINYEAR_def MAXYEAR_def)

lemma pad2_inj:
  assumes "1 \<le> a" "a \<le> 31" "1 \<le> b" "b \<le> 31" "pad2 a = pad2 b"
  shows "a = b"
proof -
  have "Some (a, []) = directive_d (pad2 a)"
    by (simp only: directive_d_pad2 [OF assms(1,2)])
  also have "\<dots> = directive_d (pad2 b)" by (simp only: assms(5))
  also have "\<dots> = Some (b, [])" by (simp only: directive_d_pad2 [OF assms(3,4)])
  finally show ?thesis by (simp only: option.inject prod.inject)
qed

lemma month_anchor_eq:
  assumes "month_anchor a" "month_anchor b" "year a = year b" "month a = month b"
  shows "a = b"
proof (rule datetime.equality)
  show "year a = year b" "month a = month b" by fact+
  show "day a = day b" "hour a = hour b" "minute a = minute b" "second a = second b"
    "microsecond a = microsecond b"
    using assms(1,2) by (simp_all only: month_anchor_def)
  show "datetime.more a = datetime.more b" by simp
qed

lemma strftime_anchor_inj:
  assumes "month_anchor a" "month_anchor b" "strftime_dmY a = strftime_dmY b"
  shows "a = b"
proof -
  note sa = strftime_anchor [OF assms(1)] and sb = strftime_anchor [OF assms(2)]
  have l: "length (pad2 (month a)) = length (pad2 (month b))" by (simp add: pad2_def)
  have "pad2 (month a) @ ''/'' @ strftime_Y (year a) =
        pad2 (month b) @ ''/'' @ strftime_Y (year b)"
    using assms(3) sa(1) sb(1) by simp
  then have e: "pad2 (month a) = pad2 (month b)" "strftime_Y (year a) = strftime_Y (year b)"
    using l by simp_all
  have "month a = month b"
    using pad2_inj [OF _ _ _ _ e(1)] sa(4,5) sb(4,5) by simp
  moreover have "year a = year b"
    using strftime_Y_inj [OF _ _ e(2)] sa(2) sb(2) by simp
  ultimately show ?thesis using month_anchor_eq [OF assms(1,2)] by simp
qed

lemma month_index_anchor_eq:
  assumes "month_anchor a" "month_anchor b" "month_index a = month_index b"
  shows "a = b"
proof -
  have m: "1 \<le> month a" "month a \<le> 12" "1 \<le> month b" "month b \<le> 12"
    using assms(1,2) by (simp_all add: month_anchor_def check_fields_def)
  have i: "year a * 12 + month a = year b * 12 + month b"
    using assms(3) by (simp add: month_index_def)
  have "\<not> year a < year b" using m i by linarith
  moreover have "\<not> year b < year a" using m i by linarith
  ultimately have y: "year a = year b" by simp
  then have "month a = month b" using i by simp
  then show ?thesis using y month_anchor_eq [OF assms(1,2)] by simp
qed

lemma main_Inr:
  "main clock csv = Inr out \<longleftrightarrow>
     (\<exists>st. script clock csv = Inr st \<and>
           out = \<lparr>fieldnames = [''Month'', ''Reentered'', ''Al''], rows = monthly_totals st\<rparr>)"
  by (cases "script clock csv") (auto simp: main_def)




lemma script_result_last:
  assumes "read_csv csv = Inr parsed" "sorted_launches clock parsed 0 = Inr (ls, n)"
    "script clock csv = Inr st" "consumed ls \<noteq> []"
  shows "month_anchor (cur_date st)"
    and "month_index (cur_date st) = reentry_month (last (consumed ls))"
    and "1 \<le> cur_month_total st"
    and "\<forall>b\<in>set (monthly_totals st). row_before (month_index (cur_date st)) b"
  using script_result(2) [OF assms(1,2,3)] assms(4) by blast+





subsection \<open>The last month\<close>

lemma last_consumed:
  assumes "read_csv csv = Inr parsed" "sorted_launches clock parsed 0 = Inr (ls, n)"
    "script clock csv = Inr st" "consumed ls \<noteq> []"
  shows "\<exists>y m d. Reentry_Date (last (consumed ls)) = DT (midnight y m d) \<and>
           check_fields (midnight y m d) \<and> cur_date st = midnight y m 1"
proof -
  let ?l = "last (consumed ls)"
  have v: "\<forall>l\<in>set parsed. Reentry_Date l = Str ''-'' \<or> (\<exists>d. Reentry_Date l = DT d)"
    using parsed_no_wildcard [OF assms(1,3)] by blast
  have m: "?l \<in> set (consumed ls)" using assms(4) by simp
  have "set ls = set parsed"
    using sorted_launches_pairs [OF assms(2) v] by blast
  then have "?l \<in> set parsed" using consumed_dated(1) [OF m] by simp
  then have "Reentry_Date ?l = Str ''-'' \<or>
         (\<exists>y m d. Reentry_Date ?l = DT (midnight y m d) \<and> check_fields (midnight y m d))"
    by (rule parsed_no_wildcard [OF assms(1,3)])
  then obtain y m d where ymd: "Reentry_Date ?l = DT (midnight y m d)"
      "check_fields (midnight y m d)"
    using consumed_dated(2) [OF m] by blast
  note a = script_result_last [OF assms]
  have "month_index (cur_date st) = month_index (midnight y m 1)"
    using a(2) ymd(1) replace_day1_midnight(3) [OF ymd(2)] by (simp add: reentry_month_def)
  then have "cur_date st = midnight y m 1"
    using month_index_anchor_eq [OF a(1) replace_day1_midnight(2) [OF ymd(2)]] by simp
  then show ?thesis using ymd by blast
qed

text \<open>
  C1: the month of the last dated record is never written. Let \<open>ls\<close> be the launches
  as sorted and \<open>consumed ls\<close> those the loop gets to before it breaks. When the run
  writes the file and the loop consumed nothing, there is no row. Otherwise, with \<open>r\<close>
  the reentry date of the last launch consumed, the loop ends with the running month on
  the month of \<open>r\<close> and a count of at least 1 that is never appended: no row has the
  \<open>Month\<close> of \<open>r\<close>, and every row is the row of a month strictly before the month
  of \<open>r\<close>, so a row for a month is written only when a later dated record falls in a
  later month.
\<close>

theorem last_month_never_flushed:
  assumes "read_csv csv = Inr parsed" "sorted_launches clock parsed 0 = Inr (ls, n)"
    "main clock csv = Inr out"
  shows "(consumed ls = [] \<longrightarrow> rows out = []) \<and>
         (consumed ls \<noteq> [] \<longrightarrow>
            (\<exists>r st. Reentry_Date (last (consumed ls)) = DT r \<and>
               script clock csv = Inr st \<and> rows out = monthly_totals st \<and>
               cur_date st = r\<lparr>day := 1\<rparr> \<and> 1 \<le> cur_month_total st \<and>
               (\<forall>b\<in>set (rows out).
                  Month b \<noteq> strftime_dmY (r\<lparr>day := 1\<rparr>) \<and>
                  (\<exists>d. month_anchor d \<and> month_index d < month_index r \<and>
                       Month b = strftime_dmY d))))"
proof -
  obtain st where st: "script clock csv = Inr st"
      "out = \<lparr>fieldnames = [''Month'', ''Reentered'', ''Al''], rows = monthly_totals st\<rparr>"
    using assms(3) main_Inr by blast
  have ro: "rows out = monthly_totals st" using st(2) by simp
  have e: "consumed ls = [] \<longrightarrow> rows out = []"
    using script_result(1) [OF assms(1,2) st(1)] ro by simp
  have f: "consumed ls \<noteq> [] \<longrightarrow>
            (\<exists>r st. Reentry_Date (last (consumed ls)) = DT r \<and>
               script clock csv = Inr st \<and> rows out = monthly_totals st \<and>
               cur_date st = r\<lparr>day := 1\<rparr> \<and> 1 \<le> cur_month_total st \<and>
               (\<forall>b\<in>set (rows out).
                  Month b \<noteq> strftime_dmY (r\<lparr>day := 1\<rparr>) \<and>
                  (\<exists>d. month_anchor d \<and> month_index d < month_index r \<and>
                       Month b = strftime_dmY d)))"
  proof
    assume ne: "consumed ls \<noteq> []"
    obtain y m d where ymd: "Reentry_Date (last (consumed ls)) = DT (midnight y m d)"
        "check_fields (midnight y m d)" "cur_date st = midnight y m 1"
      using last_consumed [OF assms(1,2) st(1) ne] by blast
    let ?r = "midnight y m d"
    have r1: "?r\<lparr>day := 1\<rparr> = midnight y m 1" by (simp add: midnight_def)
    note a = script_result_last [OF assms(1,2) st(1) ne]
    have ix: "month_index (cur_date st) = month_index ?r"
      using ymd(3) replace_day1_midnight(3) [OF ymd(2)] by simp
    have rows: "\<forall>b\<in>set (rows out).
                  Month b \<noteq> strftime_dmY (?r\<lparr>day := 1\<rparr>) \<and>
                  (\<exists>d. month_anchor d \<and> month_index d < month_index ?r \<and>
                       Month b = strftime_dmY d)"
    proof
      fix b assume "b \<in> set (rows out)"
      then have "row_before (month_index (cur_date st)) b" using a(4) ro by simp
      then obtain d' where d': "month_anchor d'" "month_index d' < month_index ?r"
          "Month b = strftime_dmY d'"
        using ix by (auto simp: row_before_def)
      have "Month b \<noteq> strftime_dmY (?r\<lparr>day := 1\<rparr>)"
      proof
        assume "Month b = strftime_dmY (?r\<lparr>day := 1\<rparr>)"
        then have "strftime_dmY d' = strftime_dmY (cur_date st)"
          using d'(3) r1 ymd(3) by simp
        then have "d' = cur_date st" by (rule strftime_anchor_inj [OF d'(1) a(1)])
        then show False using d'(2) ix by simp
      qed
      then show "Month b \<noteq> strftime_dmY (?r\<lparr>day := 1\<rparr>) \<and>
                  (\<exists>d. month_anchor d \<and> month_index d < month_index ?r \<and>
                       Month b = strftime_dmY d)"
        using d' by blast
    qed
    have "Reentry_Date (last (consumed ls)) = DT ?r \<and>
               script clock csv = Inr st \<and> rows out = monthly_totals st \<and>
               cur_date st = ?r\<lparr>day := 1\<rparr> \<and> 1 \<le> cur_month_total st \<and>
               (\<forall>b\<in>set (rows out).
                  Month b \<noteq> strftime_dmY (?r\<lparr>day := 1\<rparr>) \<and>
                  (\<exists>d. month_anchor d \<and> month_index d < month_index ?r \<and>
                       Month b = strftime_dmY d))"
      using ymd(1,3) st(1) ro r1 a(3) rows by simp
    then show "\<exists>r st. Reentry_Date (last (consumed ls)) = DT r \<and>
               script clock csv = Inr st \<and> rows out = monthly_totals st \<and>
               cur_date st = r\<lparr>day := 1\<rparr> \<and> 1 \<le> cur_month_total st \<and>
               (\<forall>b\<in>set (rows out).
                  Month b \<noteq> strftime_dmY (r\<lparr>day := 1\<rparr>) \<and>
                  (\<exists>d. month_anchor d \<and> month_index d < month_index r \<and>
                       Month b = strftime_dmY d))"
      by (intro exI)
  qed
  show ?thesis using e f by simp
qed

theorem last_month_never_flushed_witness:
  "main (\<lambda>n. midnight 2022 3 15) 
     [\<lparr>Sat_ID = ''Sat 1'', SSN = ''S1'', Status = ''R'', Launch_Date = ''2019 May 24'',
       Fail_Date = ''*'', Reentry_Date = ''2020 Mar 02''\<rparr>,
      \<lparr>Sat_ID = ''Sat 2'', SSN = ''S2'', Status = ''R'', Launch_Date = ''2019 May 24'',
       Fail_Date = ''*'', Reentry_Date = ''-''\<rparr>,
      \<lparr>Sat_ID = ''Sat 3'', SSN = ''S3'', Status = ''R'', Launch_Date = ''2019 May 24'',
       Fail_Date = ''*'', Reentry_Date = ''2020 Jan 05''\<rparr>,
      \<lparr>Sat_ID = ''Sat 4'', SSN = ''S4'', Status = ''R'', Launch_Date = ''2019 May 24'',
       Fail_Date = ''*'', Reentry_Date = ''2020 Jan 20''\<rparr>] = Inr 
     \<lparr>fieldnames = [''Month'', ''Reentered'', ''Al''],
          rows = [\<lparr>Month = ''01/01/2020'', Reentered = 2, Al = 286\<rparr>,
                  \<lparr>Month = ''01/02/2020'', Reentered = 0, Al = 0\<rparr>]\<rparr> \<and>
   Reentry_Date (last (consumed 
     [\<lparr>Sat_ID = ''Sat 3'', SSN = ''S3'', Status = ''R'',
       Launch_Date = DT (midnight 2019 5 24), Fail_Date = Str ''*'', Reentry_Date = DT (midnight 2020 1 5)\<rparr>,
      \<lparr>Sat_ID = ''Sat 4'', SSN = ''S4'', Status = ''R'',
       Launch_Date = DT (midnight 2019 5 24), Fail_Date = Str ''*'', Reentry_Date = DT (midnight 2020 1 20)\<rparr>,
      \<lparr>Sat_ID = ''Sat 1'', SSN = ''S1'', Status = ''R'',
       Launch_Date = DT (midnight 2019 5 24), Fail_Date = Str ''*'', Reentry_Date = DT (midnight 2020 3 2)\<rparr>,
      \<lparr>Sat_ID = ''Sat 2'', SSN = ''S2'', Status = ''R'',
       Launch_Date = DT (midnight 2019 5 24), Fail_Date = Str ''*'', Reentry_Date = Str ''-''\<rparr>])) = DT (midnight 2020 3 2) \<and>
   strftime_dmY ((midnight 2020 3 2)\<lparr>day := 1\<rparr>) = ''01/03/2020'' \<and>
   (\<exists>r st. Reentry_Date (last (consumed 
     [\<lparr>Sat_ID = ''Sat 3'', SSN = ''S3'', Status = ''R'',
       Launch_Date = DT (midnight 2019 5 24), Fail_Date = Str ''*'', Reentry_Date = DT (midnight 2020 1 5)\<rparr>,
      \<lparr>Sat_ID = ''Sat 4'', SSN = ''S4'', Status = ''R'',
       Launch_Date = DT (midnight 2019 5 24), Fail_Date = Str ''*'', Reentry_Date = DT (midnight 2020 1 20)\<rparr>,
      \<lparr>Sat_ID = ''Sat 1'', SSN = ''S1'', Status = ''R'',
       Launch_Date = DT (midnight 2019 5 24), Fail_Date = Str ''*'', Reentry_Date = DT (midnight 2020 3 2)\<rparr>,
      \<lparr>Sat_ID = ''Sat 2'', SSN = ''S2'', Status = ''R'',
       Launch_Date = DT (midnight 2019 5 24), Fail_Date = Str ''*'', Reentry_Date = Str ''-''\<rparr>])) = DT r \<and>
       script (\<lambda>n. midnight 2022 3 15) 
     [\<lparr>Sat_ID = ''Sat 1'', SSN = ''S1'', Status = ''R'', Launch_Date = ''2019 May 24'',
       Fail_Date = ''*'', Reentry_Date = ''2020 Mar 02''\<rparr>,
      \<lparr>Sat_ID = ''Sat 2'', SSN = ''S2'', Status = ''R'', Launch_Date = ''2019 May 24'',
       Fail_Date = ''*'', Reentry_Date = ''-''\<rparr>,
      \<lparr>Sat_ID = ''Sat 3'', SSN = ''S3'', Status = ''R'', Launch_Date = ''2019 May 24'',
       Fail_Date = ''*'', Reentry_Date = ''2020 Jan 05''\<rparr>,
      \<lparr>Sat_ID = ''Sat 4'', SSN = ''S4'', Status = ''R'', Launch_Date = ''2019 May 24'',
       Fail_Date = ''*'', Reentry_Date = ''2020 Jan 20''\<rparr>] = Inr st \<and> rows 
     \<lparr>fieldnames = [''Month'', ''Reentered'', ''Al''],
          rows = [\<lparr>Month = ''01/01/2020'', Reentered = 2, Al = 286\<rparr>,
                  \<lparr>Month = ''01/02/2020'', Reentered = 0, Al = 0\<rparr>]\<rparr> = monthly_totals st \<and>
       cur_date st = r\<lparr>day := 1\<rparr> \<and> 1 \<le> cur_month_total st \<and>
       (\<forall>b\<in>set (rows 
     \<lparr>fieldnames = [''Month'', ''Reentered'', ''Al''],
          rows = [\<lparr>Month = ''01/01/2020'', Reentered = 2, Al = 286\<rparr>,
                  \<lparr>Month = ''01/02/2020'', Reentered = 0, Al = 0\<rparr>]\<rparr>).
          Month b \<noteq> strftime_dmY (r\<lparr>day := 1\<rparr>) \<and>
          (\<exists>d. month_anchor d \<and> month_index d < month_index r \<and>
               Month b = strftime_dmY d)))"
proof -
  have r: "read_csv 
     [\<lparr>Sat_ID = ''Sat 1'', SSN = ''S1'', Status = ''R'', Launch_Date = ''2019 May 24'',
       Fail_Date = ''*'', Reentry_Date = ''2020 Mar 02''\<rparr>,
      \<lparr>Sat_ID = ''Sat 2'', SSN = ''S2'', Status = ''R'', Launch_Date = ''2019 May 24'',
       Fail_Date = ''*'', Reentry_Date = ''-''\<rparr>,
      \<lparr>Sat_ID = ''Sat 3'', SSN = ''S3'', Status = ''R'', Launch_Date = ''2019 May 24'',
       Fail_Date = ''*'', Reentry_Date = ''2020 Jan 05''\<rparr>,
      \<lparr>Sat_ID = ''Sat 4'', SSN = ''S4'', Status = ''R'', Launch_Date = ''2019 May 24'',
       Fail_Date = ''*'', Reentry_Date = ''2020 Jan 20''\<rparr>] = Inr 
     [\<lparr>Sat_ID = ''Sat 1'', SSN = ''S1'', Status = ''R'',
       Launch_Date = DT (midnight 2019 5 24), Fail_Date = Str ''*'', Reentry_Date = DT (midnight 2020 3 2)\<rparr>,
      \<lparr>Sat_ID = ''Sat 2'', SSN = ''S2'', Status = ''R'',
       Launch_Date = DT (midnight 2019 5 24), Fail_Date = Str ''*'', Reentry_Date = Str ''-''\<rparr>,
      \<lparr>Sat_ID = ''Sat 3'', SSN = ''S3'', Status = ''R'',
       Launch_Date = DT (midnight 2019 5 24), Fail_Date = Str ''*'', Reentry_Date = DT (midnight 2020 1 5)\<rparr>,
      \<lparr>Sat_ID = ''Sat 4'', SSN = ''S4'', Status = ''R'',
       Launch_Date = DT (midnight 2019 5 24), Fail_Date = Str ''*'', Reentry_Date = DT (midnight 2020 1 20)\<rparr>]" by code_simp
  have s: "sorted_launches (\<lambda>n. midnight 2022 3 15) 
     [\<lparr>Sat_ID = ''Sat 1'', SSN = ''S1'', Status = ''R'',
       Launch_Date = DT (midnight 2019 5 24), Fail_Date = Str ''*'', Reentry_Date = DT (midnight 2020 3 2)\<rparr>,
      \<lparr>Sat_ID = ''Sat 2'', SSN = ''S2'', Status = ''R'',
       Launch_Date = DT (midnight 2019 5 24), Fail_Date = Str ''*'', Reentry_Date = Str ''-''\<rparr>,
      \<lparr>Sat_ID = ''Sat 3'', SSN = ''S3'', Status = ''R'',
       Launch_Date = DT (midnight 2019 5 24), Fail_Date = Str ''*'', Reentry_Date = DT (midnight 2020 1 5)\<rparr>,
      \<lparr>Sat_ID = ''Sat 4'', SSN = ''S4'', Status = ''R'',
       Launch_Date = DT (midnight 2019 5 24), Fail_Date = Str ''*'', Reentry_Date = DT (midnight 2020 1 20)\<rparr>] 0 = Inr (
     [\<lparr>Sat_ID = ''Sat 3'', SSN = ''S3'', Status = ''R'',
       Launch_Date = DT (midnight 2019 5 24), Fail_Date = Str ''*'', Reentry_Date = DT (midnight 2020 1 5)\<rparr>,
      \<lparr>Sat_ID = ''Sat 4'', SSN = ''S4'', Status = ''R'',
       Launch_Date = DT (midnight 2019 5 24), Fail_Date = Str ''*'', Reentry_Date = DT (midnight 2020 1 20)\<rparr>,
      \<lparr>Sat_ID = ''Sat 1'', SSN = ''S1'', Status = ''R'',
       Launch_Date = DT (midnight 2019 5 24), Fail_Date = Str ''*'', Reentry_Date = DT (midnight 2020 3 2)\<rparr>,
      \<lparr>Sat_ID = ''Sat 2'', SSN = ''S2'', Status = ''R'',
       Launch_Date = DT (midnight 2019 5 24), Fail_Date = Str ''*'', Reentry_Date = Str ''-''\<rparr>], 1)" by code_simp
  have m: "main (\<lambda>n. midnight 2022 3 15) 
     [\<lparr>Sat_ID = ''Sat 1'', SSN = ''S1'', Status = ''R'', Launch_Date = ''2019 May 24'',
       Fail_Date = ''*'', Reentry_Date = ''2020 Mar 02''\<rparr>,
      \<lparr>Sat_ID = ''Sat 2'', SSN = ''S2'', Status = ''R'', Launch_Date = ''2019 May 24'',
       Fail_Date = ''*'', Reentry_Date = ''-''\<rparr>,
      \<lparr>Sat_ID = ''Sat 3'', SSN = ''S3'', Status = ''R'', Launch_Date = ''2019 May 24'',
       Fail_Date = ''*'', Reentry_Date = ''2020 Jan 05''\<rparr>,
      \<lparr>Sat_ID = ''Sat 4'', SSN = ''S4'', Status = ''R'', Launch_Date = ''2019 May 24'',
       Fail_Date = ''*'', Reentry_Date = ''2020 Jan 20''\<rparr>] = Inr 
     \<lparr>fieldnames = [''Month'', ''Reentered'', ''Al''],
          rows = [\<lparr>Month = ''01/01/2020'', Reentered = 2, Al = 286\<rparr>,
                  \<lparr>Month = ''01/02/2020'', Reentered = 0, Al = 0\<rparr>]\<rparr>" by code_simp
  have c: "consumed 
     [\<lparr>Sat_ID = ''Sat 3'', SSN = ''S3'', Status = ''R'',
       Launch_Date = DT (midnight 2019 5 24), Fail_Date = Str ''*'', Reentry_Date = DT (midnight 2020 1 5)\<rparr>,
      \<lparr>Sat_ID = ''Sat 4'', SSN = ''S4'', Status = ''R'',
       Launch_Date = DT (midnight 2019 5 24), Fail_Date = Str ''*'', Reentry_Date = DT (midnight 2020 1 20)\<rparr>,
      \<lparr>Sat_ID = ''Sat 1'', SSN = ''S1'', Status = ''R'',
       Launch_Date = DT (midnight 2019 5 24), Fail_Date = Str ''*'', Reentry_Date = DT (midnight 2020 3 2)\<rparr>,
      \<lparr>Sat_ID = ''Sat 2'', SSN = ''S2'', Status = ''R'',
       Launch_Date = DT (midnight 2019 5 24), Fail_Date = Str ''*'', Reentry_Date = Str ''-''\<rparr>] \<noteq> []" by (simp add: consumed_def dated_def)
  have l: "Reentry_Date (last (consumed 
     [\<lparr>Sat_ID = ''Sat 3'', SSN = ''S3'', Status = ''R'',
       Launch_Date = DT (midnight 2019 5 24), Fail_Date = Str ''*'', Reentry_Date = DT (midnight 2020 1 5)\<rparr>,
      \<lparr>Sat_ID = ''Sat 4'', SSN = ''S4'', Status = ''R'',
       Launch_Date = DT (midnight 2019 5 24), Fail_Date = Str ''*'', Reentry_Date = DT (midnight 2020 1 20)\<rparr>,
      \<lparr>Sat_ID = ''Sat 1'', SSN = ''S1'', Status = ''R'',
       Launch_Date = DT (midnight 2019 5 24), Fail_Date = Str ''*'', Reentry_Date = DT (midnight 2020 3 2)\<rparr>,
      \<lparr>Sat_ID = ''Sat 2'', SSN = ''S2'', Status = ''R'',
       Launch_Date = DT (midnight 2019 5 24), Fail_Date = Str ''*'', Reentry_Date = Str ''-''\<rparr>])) = DT (midnight 2020 3 2)"
    by (simp add: consumed_def dated_def)
  have f: "strftime_dmY ((midnight 2020 3 2)\<lparr>day := 1\<rparr>) = ''01/03/2020''"
    by code_simp
  have "(\<exists>r st. Reentry_Date (last (consumed 
     [\<lparr>Sat_ID = ''Sat 3'', SSN = ''S3'', Status = ''R'',
       Launch_Date = DT (midnight 2019 5 24), Fail_Date = Str ''*'', Reentry_Date = DT (midnight 2020 1 5)\<rparr>,
      \<lparr>Sat_ID = ''Sat 4'', SSN = ''S4'', Status = ''R'',
       Launch_Date = DT (midnight 2019 5 24), Fail_Date = Str ''*'', Reentry_Date = DT (midnight 2020 1 20)\<rparr>,
      \<lparr>Sat_ID = ''Sat 1'', SSN = ''S1'', Status = ''R'',
       Launch_Date = DT (midnight 2019 5 24), Fail_Date = Str ''*'', Reentry_Date = DT (midnight 2020 3 2)\<rparr>,
      \<lparr>Sat_ID = ''Sat 2'', SSN = ''S2'', Status = ''R'',
       Launch_Date = DT (midnight 2019 5 24), Fail_Date = Str ''*'', Reentry_Date = Str ''-''\<rparr>])) = DT r \<and>
       script (\<lambda>n. midnight 2022 3 15) 
     [\<lparr>Sat_ID = ''Sat 1'', SSN = ''S1'', Status = ''R'', Launch_Date = ''2019 May 24'',
       Fail_Date = ''*'', Reentry_Date = ''2020 Mar 02''\<rparr>,
      \<lparr>Sat_ID = ''Sat 2'', SSN = ''S2'', Status = ''R'', Launch_Date = ''2019 May 24'',
       Fail_Date = ''*'', Reentry_Date = ''-''\<rparr>,
      \<lparr>Sat_ID = ''Sat 3'', SSN = ''S3'', Status = ''R'', Launch_Date = ''2019 May 24'',
       Fail_Date = ''*'', Reentry_Date = ''2020 Jan 05''\<rparr>,
      \<lparr>Sat_ID = ''Sat 4'', SSN = ''S4'', Status = ''R'', Launch_Date = ''2019 May 24'',
       Fail_Date = ''*'', Reentry_Date = ''2020 Jan 20''\<rparr>] = Inr st \<and> rows 
     \<lparr>fieldnames = [''Month'', ''Reentered'', ''Al''],
          rows = [\<lparr>Month = ''01/01/2020'', Reentered = 2, Al = 286\<rparr>,
                  \<lparr>Month = ''01/02/2020'', Reentered = 0, Al = 0\<rparr>]\<rparr> = monthly_totals st \<and>
       cur_date st = r\<lparr>day := 1\<rparr> \<and> 1 \<le> cur_month_total st \<and>
       (\<forall>b\<in>set (rows 
     \<lparr>fieldnames = [''Month'', ''Reentered'', ''Al''],
          rows = [\<lparr>Month = ''01/01/2020'', Reentered = 2, Al = 286\<rparr>,
                  \<lparr>Month = ''01/02/2020'', Reentered = 0, Al = 0\<rparr>]\<rparr>).
          Month b \<noteq> strftime_dmY (r\<lparr>day := 1\<rparr>) \<and>
          (\<exists>d. month_anchor d \<and> month_index d < month_index r \<and>
               Month b = strftime_dmY d)))"
    using last_month_never_flushed [OF r s m] c by blast
  then show ?thesis using m l f by blast
qed

subsection \<open>The order of consumption\<close>

lemma dt_of_key_inverse: "dt_of_key (dt_key d) = d" "dt_key (dt_of_key k) = k"
  by (simp_all add: dt_of_key_def dt_key_def split: prod.splits)

lemma sorted_strings_pairs:
  assumes "those (map str_item kls) = Some ss" "kls = fst (key_list clock parsed n)"
  shows "set (map snd (sort_key fst ss)) = set parsed"
    and "sorted (map fst (sort_key fst ss))"
    and "\<forall>x\<in>set (sort_key fst ss).
           Reentry_Date (snd x) = Str (fst x) \<and> Reentry_Date (snd x) \<noteq> Str ''-''"
proof -
  have ss: "ss = map (\<lambda>x. the (str_item x)) kls" and al: "\<forall>x\<in>set kls. str_item x \<noteq> None"
    using assms(1) by (simp_all add: those_map_Some)
  have sn: "map snd ss = map snd kls"
  proof -
    have "\<forall>x\<in>set kls. snd (the (str_item x)) = snd x"
      using al str_item_snd by fastforce
    then show ?thesis by (simp add: ss)
  qed
  have "set (map snd (sort_key fst ss)) = set (map snd ss)" by simp
  also have "\<dots> = set parsed"
    using sn key_list_snd [of clock parsed n] assms(2) by simp
  finally show "set (map snd (sort_key fst ss)) = set parsed" .
  show "sorted (map fst (sort_key fst ss))" by simp
  show "\<forall>x\<in>set (sort_key fst ss).
           Reentry_Date (snd x) = Str (fst x) \<and> Reentry_Date (snd x) \<noteq> Str ''-''"
  proof
    fix y assume "y \<in> set (sort_key fst ss)"
    then have "y \<in> set ss" by simp
    then obtain x where x: "x \<in> set kls" "y = the (str_item x)" using ss by auto
    then have xy: "str_item x = Some y" using al by auto
    from str_item_snd [OF xy] have d: "snd y = snd x" "fst x = Str (fst y)" by simp_all
    have "(fst x, snd x) \<in> set (fst (key_list clock parsed n))"
      using x(1) assms(2) by simp
    from key_list_keys [OF this]
    have "Reentry_Date (snd x) \<noteq> Str ''-'' \<and> fst x = Reentry_Date (snd x)"
      using d(2) by auto
    then show "Reentry_Date (snd y) = Str (fst y) \<and> Reentry_Date (snd y) \<noteq> Str ''-''"
      using d by simp
  qed
qed

lemma sorted_launches_keys:
  assumes "sorted_launches clock parsed n = Inr (ls, n')"
  shows "\<exists>sks. ls = map snd sks \<and> set ls = set parsed \<and> sorted_wrt py_le (map fst sks) \<and>
           (\<forall>x\<in>set sks.
              (Reentry_Date (snd x) = Str ''-'' \<and> (\<exists>j. fst x = DT (clock j))) \<or>
              (Reentry_Date (snd x) \<noteq> Str ''-'' \<and> fst x = Reentry_Date (snd x)))"
proof -
  let ?kls = "fst (key_list clock parsed n)"
  let ?E = "\<lambda>x. (Reentry_Date (snd x) = Str ''-'' \<and> (\<exists>j. fst x = DT (clock j))) \<or>
              (Reentry_Date (snd x) \<noteq> Str ''-'' \<and> fst x = Reentry_Date (snd x))"
  from sort_decorated_cases [OF sorted_launches_Inr [OF assms]]
  consider ds where "those (map dt_item ?kls) = Some ds" "ls = map snd (sort_key fst ds)"
    | ss where "those (map str_item ?kls) = Some ss" "ls = map snd (sort_key fst ss)"
    by blast
  then show ?thesis
  proof cases
    case 1
    let ?sds = "sort_key fst ds"
    let ?g = "\<lambda>x. (DT (dt_of_key (fst x)), snd x)"
    note p = sorted_dates_pairs [OF 1(1) refl]
    have a: "ls = map snd (map ?g ?sds)" using 1(2) by (simp add: comp_def)
    have b: "set ls = set parsed" using p(1) 1(2) by simp
    have "sorted_wrt (\<lambda>x y. fst x \<le> fst y) ?sds"
      using p(2) by (simp only: sorted_map)
    then have "sorted_wrt (\<lambda>x y. py_le (fst (?g x)) (fst (?g y))) ?sds"
      by (rule sorted_wrt_mono_rel [rotated]) (simp add: dt_of_key_inverse)
    then have c: "sorted_wrt py_le (map fst (map ?g ?sds))"
      by (simp add: sorted_wrt_map comp_def)
    have d: "\<forall>x\<in>set (map ?g ?sds). ?E x"
    proof
      fix x assume "x \<in> set (map ?g ?sds)"
      then obtain y where y: "y \<in> set ?sds" "x = ?g y" by auto
      from p(3) y(1) consider j where "Reentry_Date (snd y) = Str ''-''" "fst y = dt_key (clock j)"
        | d where "Reentry_Date (snd y) = DT d" "fst y = dt_key d"
        by blast
      then show "?E x"
      proof cases
        case 1
        then have "fst x = DT (clock j)" using y(2) by (simp add: dt_of_key_inverse)
        then show ?thesis using 1(1) y(2) by auto
      next
        case 2
        then have "fst x = Reentry_Date (snd x)" using y(2) by (simp add: dt_of_key_inverse)
        then show ?thesis using 2(1) y(2) by auto
      qed
    qed
    show ?thesis using a b c d by (intro exI [of _ "map ?g ?sds"] conjI)
  next
    case 2
    let ?sss = "sort_key fst ss"
    let ?g = "\<lambda>x. (Str (fst x), snd x)"
    note p = sorted_strings_pairs [OF 2(1) refl]
    have a: "ls = map snd (map ?g ?sss)" using 2(2) by (simp add: comp_def)
    have b: "set ls = set parsed" using p(1) 2(2) by simp
    have "sorted_wrt (\<lambda>x y. fst x \<le> fst y) ?sss"
      using p(2) by (simp only: sorted_map)
    then have "sorted_wrt (\<lambda>x y. py_le (fst (?g x)) (fst (?g y))) ?sss"
      by (rule sorted_wrt_mono_rel [rotated]) simp
    then have c: "sorted_wrt py_le (map fst (map ?g ?sss))"
      by (simp add: sorted_wrt_map comp_def)
    have d: "\<forall>x\<in>set (map ?g ?sss). ?E x"
      using p(3) by auto
    show ?thesis using a b c d by (intro exI [of _ "map ?g ?sss"] conjI)
  qed
qed

lemma sorted_launches_nth:
  assumes "sorted_launches clock parsed n = Inr (ls, n')"
  shows "\<exists>keys. length keys = length ls \<and> sorted_wrt py_le keys \<and>
           (\<forall>i<length ls.
              (Reentry_Date (ls ! i) = Str ''-'' \<and> (\<exists>j. keys ! i = DT (clock j))) \<or>
              (Reentry_Date (ls ! i) \<noteq> Str ''-'' \<and> keys ! i = Reentry_Date (ls ! i)))"
proof -
  obtain sks where sks: "ls = map snd sks" "sorted_wrt py_le (map fst sks)"
      "\<forall>x\<in>set sks.
          (Reentry_Date (snd x) = Str ''-'' \<and> (\<exists>j. fst x = DT (clock j))) \<or>
          (Reentry_Date (snd x) \<noteq> Str ''-'' \<and> fst x = Reentry_Date (snd x))"
    using sorted_launches_keys [OF assms] by blast
  have "\<forall>i<length ls.
          (Reentry_Date (ls ! i) = Str ''-'' \<and> (\<exists>j. map fst sks ! i = DT (clock j))) \<or>
          (Reentry_Date (ls ! i) \<noteq> Str ''-'' \<and> map fst sks ! i = Reentry_Date (ls ! i))"
  proof (intro allI impI)
    fix i assume i: "i < length ls"
    then have "sks ! i \<in> set sks" using sks(1) by simp
    then show "(Reentry_Date (ls ! i) = Str ''-'' \<and> (\<exists>j. map fst sks ! i = DT (clock j))) \<or>
          (Reentry_Date (ls ! i) \<noteq> Str ''-'' \<and> map fst sks ! i = Reentry_Date (ls ! i))"
      using sks(3) i sks(1) by auto
  qed
  moreover have "length (map fst sks) = length ls" using sks(1) by simp
  ultimately show ?thesis using sks(2) by blast
qed

lemma unknown_after_dated:
  assumes "sorted_launches clock parsed n = Inr (ls, n')"
    and "\<forall>l\<in>set parsed. \<forall>d j. Reentry_Date l = DT d \<longrightarrow> dt_key d < dt_key (clock j)"
    and "i < j" "j < length ls" "Reentry_Date (ls ! i) = Str ''-''"
  shows "Reentry_Date (ls ! j) = Str ''-''"
proof (rule ccontr)
  assume nj: "Reentry_Date (ls ! j) \<noteq> Str ''-''"
  obtain keys where k: "length keys = length ls" "sorted_wrt py_le keys"
      "\<forall>i<length ls.
          (Reentry_Date (ls ! i) = Str ''-'' \<and> (\<exists>j. keys ! i = DT (clock j))) \<or>
          (Reentry_Date (ls ! i) \<noteq> Str ''-'' \<and> keys ! i = Reentry_Date (ls ! i))"
    using sorted_launches_nth [OF assms(1)] by blast
  have le: "py_le (keys ! i) (keys ! j)"
    using sorted_wrt_nth_less [OF k(2) assms(3)] assms(4) k(1) by simp
  obtain c where c: "keys ! i = DT (clock c)"
    using k(3) assms(3,4,5) by (metis order.strict_trans)
  have kj: "keys ! j = Reentry_Date (ls ! j)"
    using k(3) assms(4) nj by blast
  obtain d where d: "Reentry_Date (ls ! j) = DT d" "dt_key (clock c) \<le> dt_key d"
    using le c kj by (cases "Reentry_Date (ls ! j)") auto
  have "set ls = set parsed"
    using sorted_launches_keys [OF assms(1)] by blast
  then have "ls ! j \<in> set parsed" using assms(4) nth_mem by blast
  then have "dt_key d < dt_key (clock c)" using assms(2) d(1) by blast
  then show False using d(2) by simp
qed

lemma consumed_order:
  assumes "sorted_launches clock parsed n = Inr (ls, n')"
  shows "sorted_wrt (\<lambda>a b. py_le (Reentry_Date a) (Reentry_Date b)) (consumed ls)"
proof -
  let ?Q = "\<lambda>a b. dated a \<and> dated b \<longrightarrow> py_le (Reentry_Date a) (Reentry_Date b)"
  obtain keys where k: "length keys = length ls" "sorted_wrt py_le keys"
      "\<forall>i<length ls.
          (Reentry_Date (ls ! i) = Str ''-'' \<and> (\<exists>j. keys ! i = DT (clock j))) \<or>
          (Reentry_Date (ls ! i) \<noteq> Str ''-'' \<and> keys ! i = Reentry_Date (ls ! i))"
    using sorted_launches_nth [OF assms(1)] by blast
  have "sorted_wrt ?Q ls"
    unfolding sorted_wrt_iff_nth_less
  proof (intro allI impI, elim conjE)
    fix i j assume ij: "i < j" "j < length ls" and d: "dated (ls ! i)" "dated (ls ! j)"
    have "py_le (keys ! i) (keys ! j)"
      using sorted_wrt_nth_less [OF k(2) ij(1)] ij(2) k(1) by simp
    moreover have "i < length ls" using ij by simp
    then have "keys ! i = Reentry_Date (ls ! i)"
      using k(3) d(1) unfolding dated_def by blast
    moreover have "keys ! j = Reentry_Date (ls ! j)"
      using k(3) ij(2) d(2) unfolding dated_def by blast
    ultimately show "py_le (Reentry_Date (ls ! i)) (Reentry_Date (ls ! j))" by simp
  qed
  then have "sorted_wrt ?Q (consumed ls)"
    unfolding consumed_def by (rule sorted_wrt_takeWhile)
  then show ?thesis
  proof (rule sorted_wrt_mono_rel [rotated])
    fix a b assume "a \<in> set (consumed ls)" "b \<in> set (consumed ls)" "?Q a b"
    then show "py_le (Reentry_Date a) (Reentry_Date b)"
      using consumed_dated(2) by (simp add: dated_def)
  qed
qed

text \<open>
  C3, as stated, has every record with the sentinel \<open>-\<close> sorted after every record
  with a date. A record whose reentry date is after the time of the run sorts after the
  sentinel: with the clock at 15 March 2022 and the records \<open>2030 Jan 01\<close> and \<open>-\<close>,
  the sentinel comes first and the loop consumes nothing.
\<close>

theorem future_reentry_sorts_after_unknown:
  "read_csv
     [\<lparr>Sat_ID = ''Sat 1'', SSN = ''S1'', Status = ''R'', Launch_Date = ''2019 May 24'',
       Fail_Date = ''*'', Reentry_Date = ''2030 Jan 01''\<rparr>,
      \<lparr>Sat_ID = ''Sat 2'', SSN = ''S2'', Status = ''R'', Launch_Date = ''2019 May 24'',
       Fail_Date = ''*'', Reentry_Date = ''-''\<rparr>] =
   Inr [\<lparr>Sat_ID = ''Sat 1'', SSN = ''S1'', Status = ''R'',
       Launch_Date = DT (midnight 2019 5 24), Fail_Date = Str ''*'', Reentry_Date = DT (midnight 2030 1 1)\<rparr>,
        \<lparr>Sat_ID = ''Sat 2'', SSN = ''S2'', Status = ''R'',
       Launch_Date = DT (midnight 2019 5 24), Fail_Date = Str ''*'', Reentry_Date = Str ''-''\<rparr>] \<and>
   sorted_launches (\<lambda>n. midnight 2022 3 15)
     [\<lparr>Sat_ID = ''Sat 1'', SSN = ''S1'', Status = ''R'',
       Launch_Date = DT (midnight 2019 5 24), Fail_Date = Str ''*'', Reentry_Date = DT (midnight 2030 1 1)\<rparr>,
      \<lparr>Sat_ID = ''Sat 2'', SSN = ''S2'', Status = ''R'',
       Launch_Date = DT (midnight 2019 5 24), Fail_Date = Str ''*'', Reentry_Date = Str ''-''\<rparr>] 0 =
   Inr ([\<lparr>Sat_ID = ''Sat 2'', SSN = ''S2'', Status = ''R'',
       Launch_Date = DT (midnight 2019 5 24), Fail_Date = Str ''*'', Reentry_Date = Str ''-''\<rparr>,
         \<lparr>Sat_ID = ''Sat 1'', SSN = ''S1'', Status = ''R'',
       Launch_Date = DT (midnight 2019 5 24), Fail_Date = Str ''*'', Reentry_Date = DT (midnight 2030 1 1)\<rparr>], 1) \<and>
   consumed
     [\<lparr>Sat_ID = ''Sat 2'', SSN = ''S2'', Status = ''R'',
       Launch_Date = DT (midnight 2019 5 24), Fail_Date = Str ''*'', Reentry_Date = Str ''-''\<rparr>,
      \<lparr>Sat_ID = ''Sat 1'', SSN = ''S1'', Status = ''R'',
       Launch_Date = DT (midnight 2019 5 24), Fail_Date = Str ''*'', Reentry_Date = DT (midnight 2030 1 1)\<rparr>] = []"
  by code_simp

text \<open>
  C3 (amended): whenever the sort succeeds, the sorted list is in non-decreasing order
  of effective reentry date, the key of a record with \<open>-\<close> being a reading of the
  clock and the key of any other record its reentry date; it holds the same records as
  the input; and the records the loop consumes are in non-decreasing order of reentry
  date. If every reentry date in the input is earlier than every reading of the clock,
  then no record with a date comes after a record with \<open>-\<close>, and the loop consumes
  exactly the records with a date. The loop stops at the first record with \<open>-\<close>: it
  does what it would do on the records before it alone, none of which has \<open>-\<close>.
\<close>

theorem consumption_order:
  assumes "sorted_launches clock parsed 0 = Inr (ls, n)"
  shows "(\<exists>keys. length keys = length ls \<and> sorted_wrt py_le keys \<and>
            (\<forall>i<length ls.
               (Reentry_Date (ls ! i) = Str ''-'' \<and> (\<exists>j. keys ! i = DT (clock j))) \<or>
               (Reentry_Date (ls ! i) \<noteq> Str ''-'' \<and> keys ! i = Reentry_Date (ls ! i)))) \<and>
         set ls = set parsed \<and> length ls = length parsed \<and>
         sorted_wrt (\<lambda>a b. py_le (Reentry_Date a) (Reentry_Date b)) (consumed ls) \<and>
         ((\<forall>l\<in>set parsed. \<forall>d j. Reentry_Date l = DT d \<longrightarrow> dt_key d < dt_key (clock j)) \<longrightarrow>
            (\<forall>i j. i < j \<and> j < length ls \<and> Reentry_Date (ls ! i) = Str ''-'' \<longrightarrow>
                   Reentry_Date (ls ! j) = Str ''-'') \<and>
            consumed ls = filter dated ls) \<and>
         (\<forall>st. for_launches clock ls st = for_launches clock (consumed ls) st) \<and>
         (\<forall>l\<in>set (consumed ls). Reentry_Date l \<noteq> Str ''-'')"
proof -
  note a = sorted_launches_nth [OF assms]
  have b: "set ls = set parsed"
    using sorted_launches_keys [OF assms] by blast
  note c = sorted_launches_length [OF assms]
  note d = consumed_order [OF assms]
  have e: "(\<forall>l\<in>set parsed. \<forall>d j. Reentry_Date l = DT d \<longrightarrow> dt_key d < dt_key (clock j)) \<longrightarrow>
            (\<forall>i j. i < j \<and> j < length ls \<and> Reentry_Date (ls ! i) = Str ''-'' \<longrightarrow>
                   Reentry_Date (ls ! j) = Str ''-'') \<and>
            consumed ls = filter dated ls"
  proof
    assume h: "\<forall>l\<in>set parsed. \<forall>d j. Reentry_Date l = DT d \<longrightarrow> dt_key d < dt_key (clock j)"
    have u: "\<forall>i j. i < j \<and> j < length ls \<and> Reentry_Date (ls ! i) = Str ''-'' \<longrightarrow>
                   Reentry_Date (ls ! j) = Str ''-''"
      using unknown_after_dated [OF assms h] by blast
    then have "sorted_wrt (\<lambda>a b. dated b \<longrightarrow> dated a) ls"
      unfolding sorted_wrt_iff_nth_less dated_def by blast
    then have "consumed ls = filter dated ls"
      unfolding consumed_def by (rule takeWhile_filter)
    then show "(\<forall>i j. i < j \<and> j < length ls \<and> Reentry_Date (ls ! i) = Str ''-'' \<longrightarrow>
                   Reentry_Date (ls ! j) = Str ''-'') \<and>
            consumed ls = filter dated ls"
      using u by simp
  qed
  have f: "\<forall>st. for_launches clock ls st = for_launches clock (consumed ls) st"
    using for_launches_consumed by blast
  have g: "\<forall>l\<in>set (consumed ls). Reentry_Date l \<noteq> Str ''-''"
    using consumed_dated(2) by blast
  show ?thesis
    by (intro conjI) (rule a b c d e f g)+
qed

theorem consumption_order_witness:
  "sorted_launches (\<lambda>n. midnight 2022 3 15) 
     [\<lparr>Sat_ID = ''Sat 1'', SSN = ''S1'', Status = ''R'',
       Launch_Date = DT (midnight 2019 5 24), Fail_Date = Str ''*'', Reentry_Date = DT (midnight 2020 3 2)\<rparr>,
      \<lparr>Sat_ID = ''Sat 2'', SSN = ''S2'', Status = ''R'',
       Launch_Date = DT (midnight 2019 5 24), Fail_Date = Str ''*'', Reentry_Date = Str ''-''\<rparr>,
      \<lparr>Sat_ID = ''Sat 3'', SSN = ''S3'', Status = ''R'',
       Launch_Date = DT (midnight 2019 5 24), Fail_Date = Str ''*'', Reentry_Date = DT (midnight 2020 1 5)\<rparr>,
      \<lparr>Sat_ID = ''Sat 4'', SSN = ''S4'', Status = ''R'',
       Launch_Date = DT (midnight 2019 5 24), Fail_Date = Str ''*'', Reentry_Date = DT (midnight 2020 1 20)\<rparr>] 0 = Inr (
     [\<lparr>Sat_ID = ''Sat 3'', SSN = ''S3'', Status = ''R'',
       Launch_Date = DT (midnight 2019 5 24), Fail_Date = Str ''*'', Reentry_Date = DT (midnight 2020 1 5)\<rparr>,
      \<lparr>Sat_ID = ''Sat 4'', SSN = ''S4'', Status = ''R'',
       Launch_Date = DT (midnight 2019 5 24), Fail_Date = Str ''*'', Reentry_Date = DT (midnight 2020 1 20)\<rparr>,
      \<lparr>Sat_ID = ''Sat 1'', SSN = ''S1'', Status = ''R'',
       Launch_Date = DT (midnight 2019 5 24), Fail_Date = Str ''*'', Reentry_Date = DT (midnight 2020 3 2)\<rparr>,
      \<lparr>Sat_ID = ''Sat 2'', SSN = ''S2'', Status = ''R'',
       Launch_Date = DT (midnight 2019 5 24), Fail_Date = Str ''*'', Reentry_Date = Str ''-''\<rparr>], 1) \<and>
   consumed 
     [\<lparr>Sat_ID = ''Sat 3'', SSN = ''S3'', Status = ''R'',
       Launch_Date = DT (midnight 2019 5 24), Fail_Date = Str ''*'', Reentry_Date = DT (midnight 2020 1 5)\<rparr>,
      \<lparr>Sat_ID = ''Sat 4'', SSN = ''S4'', Status = ''R'',
       Launch_Date = DT (midnight 2019 5 24), Fail_Date = Str ''*'', Reentry_Date = DT (midnight 2020 1 20)\<rparr>,
      \<lparr>Sat_ID = ''Sat 1'', SSN = ''S1'', Status = ''R'',
       Launch_Date = DT (midnight 2019 5 24), Fail_Date = Str ''*'', Reentry_Date = DT (midnight 2020 3 2)\<rparr>,
      \<lparr>Sat_ID = ''Sat 2'', SSN = ''S2'', Status = ''R'',
       Launch_Date = DT (midnight 2019 5 24), Fail_Date = Str ''*'', Reentry_Date = Str ''-''\<rparr>] = filter dated 
     [\<lparr>Sat_ID = ''Sat 3'', SSN = ''S3'', Status = ''R'',
       Launch_Date = DT (midnight 2019 5 24), Fail_Date = Str ''*'', Reentry_Date = DT (midnight 2020 1 5)\<rparr>,
      \<lparr>Sat_ID = ''Sat 4'', SSN = ''S4'', Status = ''R'',
       Launch_Date = DT (midnight 2019 5 24), Fail_Date = Str ''*'', Reentry_Date = DT (midnight 2020 1 20)\<rparr>,
      \<lparr>Sat_ID = ''Sat 1'', SSN = ''S1'', Status = ''R'',
       Launch_Date = DT (midnight 2019 5 24), Fail_Date = Str ''*'', Reentry_Date = DT (midnight 2020 3 2)\<rparr>,
      \<lparr>Sat_ID = ''Sat 2'', SSN = ''S2'', Status = ''R'',
       Launch_Date = DT (midnight 2019 5 24), Fail_Date = Str ''*'', Reentry_Date = Str ''-''\<rparr>] \<and>
   map Reentry_Date (consumed 
     [\<lparr>Sat_ID = ''Sat 3'', SSN = ''S3'', Status = ''R'',
       Launch_Date = DT (midnight 2019 5 24), Fail_Date = Str ''*'', Reentry_Date = DT (midnight 2020 1 5)\<rparr>,
      \<lparr>Sat_ID = ''Sat 4'', SSN = ''S4'', Status = ''R'',
       Launch_Date = DT (midnight 2019 5 24), Fail_Date = Str ''*'', Reentry_Date = DT (midnight 2020 1 20)\<rparr>,
      \<lparr>Sat_ID = ''Sat 1'', SSN = ''S1'', Status = ''R'',
       Launch_Date = DT (midnight 2019 5 24), Fail_Date = Str ''*'', Reentry_Date = DT (midnight 2020 3 2)\<rparr>,
      \<lparr>Sat_ID = ''Sat 2'', SSN = ''S2'', Status = ''R'',
       Launch_Date = DT (midnight 2019 5 24), Fail_Date = Str ''*'', Reentry_Date = Str ''-''\<rparr>]) =
     [DT (midnight 2020 1 5), DT (midnight 2020 1 20), DT (midnight 2020 3 2)] \<and>
   sorted_wrt (\<lambda>a b. py_le (Reentry_Date a) (Reentry_Date b)) (consumed 
     [\<lparr>Sat_ID = ''Sat 3'', SSN = ''S3'', Status = ''R'',
       Launch_Date = DT (midnight 2019 5 24), Fail_Date = Str ''*'', Reentry_Date = DT (midnight 2020 1 5)\<rparr>,
      \<lparr>Sat_ID = ''Sat 4'', SSN = ''S4'', Status = ''R'',
       Launch_Date = DT (midnight 2019 5 24), Fail_Date = Str ''*'', Reentry_Date = DT (midnight 2020 1 20)\<rparr>,
      \<lparr>Sat_ID = ''Sat 1'', SSN = ''S1'', Status = ''R'',
       Launch_Date = DT (midnight 2019 5 24), Fail_Date = Str ''*'', Reentry_Date = DT (midnight 2020 3 2)\<rparr>,
      \<lparr>Sat_ID = ''Sat 2'', SSN = ''S2'', Status = ''R'',
       Launch_Date = DT (midnight 2019 5 24), Fail_Date = Str ''*'', Reentry_Date = Str ''-''\<rparr>])"
proof -
  have s: "sorted_launches (\<lambda>n. midnight 2022 3 15) 
     [\<lparr>Sat_ID = ''Sat 1'', SSN = ''S1'', Status = ''R'',
       Launch_Date = DT (midnight 2019 5 24), Fail_Date = Str ''*'', Reentry_Date = DT (midnight 2020 3 2)\<rparr>,
      \<lparr>Sat_ID = ''Sat 2'', SSN = ''S2'', Status = ''R'',
       Launch_Date = DT (midnight 2019 5 24), Fail_Date = Str ''*'', Reentry_Date = Str ''-''\<rparr>,
      \<lparr>Sat_ID = ''Sat 3'', SSN = ''S3'', Status = ''R'',
       Launch_Date = DT (midnight 2019 5 24), Fail_Date = Str ''*'', Reentry_Date = DT (midnight 2020 1 5)\<rparr>,
      \<lparr>Sat_ID = ''Sat 4'', SSN = ''S4'', Status = ''R'',
       Launch_Date = DT (midnight 2019 5 24), Fail_Date = Str ''*'', Reentry_Date = DT (midnight 2020 1 20)\<rparr>] 0 = Inr (
     [\<lparr>Sat_ID = ''Sat 3'', SSN = ''S3'', Status = ''R'',
       Launch_Date = DT (midnight 2019 5 24), Fail_Date = Str ''*'', Reentry_Date = DT (midnight 2020 1 5)\<rparr>,
      \<lparr>Sat_ID = ''Sat 4'', SSN = ''S4'', Status = ''R'',
       Launch_Date = DT (midnight 2019 5 24), Fail_Date = Str ''*'', Reentry_Date = DT (midnight 2020 1 20)\<rparr>,
      \<lparr>Sat_ID = ''Sat 1'', SSN = ''S1'', Status = ''R'',
       Launch_Date = DT (midnight 2019 5 24), Fail_Date = Str ''*'', Reentry_Date = DT (midnight 2020 3 2)\<rparr>,
      \<lparr>Sat_ID = ''Sat 2'', SSN = ''S2'', Status = ''R'',
       Launch_Date = DT (midnight 2019 5 24), Fail_Date = Str ''*'', Reentry_Date = Str ''-''\<rparr>], 1)" by code_simp
  have h: "\<forall>l\<in>set 
     [\<lparr>Sat_ID = ''Sat 1'', SSN = ''S1'', Status = ''R'',
       Launch_Date = DT (midnight 2019 5 24), Fail_Date = Str ''*'', Reentry_Date = DT (midnight 2020 3 2)\<rparr>,
      \<lparr>Sat_ID = ''Sat 2'', SSN = ''S2'', Status = ''R'',
       Launch_Date = DT (midnight 2019 5 24), Fail_Date = Str ''*'', Reentry_Date = Str ''-''\<rparr>,
      \<lparr>Sat_ID = ''Sat 3'', SSN = ''S3'', Status = ''R'',
       Launch_Date = DT (midnight 2019 5 24), Fail_Date = Str ''*'', Reentry_Date = DT (midnight 2020 1 5)\<rparr>,
      \<lparr>Sat_ID = ''Sat 4'', SSN = ''S4'', Status = ''R'',
       Launch_Date = DT (midnight 2019 5 24), Fail_Date = Str ''*'', Reentry_Date = DT (midnight 2020 1 20)\<rparr>]. \<forall>d j. Reentry_Date l = DT d \<longrightarrow>
             dt_key d < dt_key ((\<lambda>n. midnight 2022 3 15) j)"
    by (simp add: dt_key_def midnight_def)
  have m: "map Reentry_Date (consumed 
     [\<lparr>Sat_ID = ''Sat 3'', SSN = ''S3'', Status = ''R'',
       Launch_Date = DT (midnight 2019 5 24), Fail_Date = Str ''*'', Reentry_Date = DT (midnight 2020 1 5)\<rparr>,
      \<lparr>Sat_ID = ''Sat 4'', SSN = ''S4'', Status = ''R'',
       Launch_Date = DT (midnight 2019 5 24), Fail_Date = Str ''*'', Reentry_Date = DT (midnight 2020 1 20)\<rparr>,
      \<lparr>Sat_ID = ''Sat 1'', SSN = ''S1'', Status = ''R'',
       Launch_Date = DT (midnight 2019 5 24), Fail_Date = Str ''*'', Reentry_Date = DT (midnight 2020 3 2)\<rparr>,
      \<lparr>Sat_ID = ''Sat 2'', SSN = ''S2'', Status = ''R'',
       Launch_Date = DT (midnight 2019 5 24), Fail_Date = Str ''*'', Reentry_Date = Str ''-''\<rparr>]) =
     [DT (midnight 2020 1 5), DT (midnight 2020 1 20), DT (midnight 2020 3 2)]"
    by (simp add: consumed_def dated_def)
  show ?thesis
    using consumption_order [OF s] h s m by blast
qed

subsection \<open>The months between reentries\<close>


















end
